theory Spec2Isabelle
  imports Complex_Main "HOL-Library.Sublist"
begin

section \<open>koyomi-bot: solar terms and micro-seasons from the solar longitude\<close>

text \<open>
  A shallow embedding of \<^verbatim>\<open>src/main.py\<close>.

  Conventions of the model.
  \<^item> A Python \<^verbatim>\<open>float\<close> (and a JSON number) is a \<^typ>\<open>real\<close>. Order comparisons of finite
    floats are exact, so the selection of the term is modelled exactly. The two divisions of
    \<^verbatim>\<open>_find_ko_in_sekki\<close> are rounded to a double by \<open>fl\<close> (53 significant bits, to nearest,
    ties to even); the exponent range is not bounded, so underflow, overflow, infinities and
    NaN are not modelled. The sums and differences are the exact ones.
  \<^item> A Python \<^verbatim>\<open>str\<close> is the list of its Unicode code points.
  \<^item> The dictionaries read from \<^verbatim>\<open>data/sekki.json\<close> are records: the keys the code reads
    (\<^verbatim>\<open>sekki\<close>, \<^verbatim>\<open>name\<close>, \<^verbatim>\<open>reading\<close>, \<^verbatim>\<open>longitude\<close>, \<^verbatim>\<open>ko\<close>, \<^verbatim>\<open>emoji\<close>) are present with values
    of the expected type. The lengths of the two lists are not fixed by the types.
  \<^item> An exception is a value \<open>Inl e\<close> of the result.
\<close>

subsection \<open>Data\<close>

type_synonym ustring = "nat list"

record ko =
  ko_name :: ustring
  ko_reading :: ustring
  ko_emoji :: ustring

record sekki =
  sekki_name :: ustring
  sekki_reading :: ustring
  sekki_longitude :: real
  sekki_ko :: "ko list"

record sekki_data =
  sekki :: "sekki list"

datatype error = IndexError | ZeroDivisionError | FileNotFoundError | JSONDecodeError

subsection \<open>Python primitives\<close>

text \<open>
  \<^verbatim>\<open>xs[i]\<close> for a list of length \<open>n\<close>: the indices \<open>0, \<dots>, n - 1\<close> read from the front, the
  indices \<open>- n, \<dots>, - 1\<close> from the back, and any other index raises IndexError.
\<close>

definition py_index :: "'a list \<Rightarrow> int \<Rightarrow> error + 'a" where
  "py_index xs i =
     (if 0 \<le> i \<and> i < int (length xs) then Inr (xs ! nat i)
      else if - int (length xs) \<le> i \<and> i < 0 then Inr (xs ! nat (int (length xs) + i))
      else Inl IndexError)"

text \<open>\<^verbatim>\<open>int(x)\<close> of a finite float truncates towards zero.\<close>

definition py_int :: "real \<Rightarrow> int" where
  "py_int x = (if 0 \<le> x then \<lfloor>x\<rfloor> else \<lceil>x\<rceil>)"

text \<open>
  The result of a float division: the exact quotient rounded to the nearest number with 53
  significant bits, to the one with an even last bit when two are equally near. A nonzero
  \<open>x\<close> with \<open>2 ^ p \<le> \<bar>x\<bar> < 2 ^ (p + 1)\<close> is rounded to a multiple of \<open>2 ^ (p - 52)\<close>.
\<close>

definition round_even :: "real \<Rightarrow> int" where
  "round_even x =
     (let f = \<lfloor>x\<rfloor>; d = x - of_int f
      in if d < 1 / 2 then f else if 1 / 2 < d then f + 1
         else if even f then f else f + 1)"

definition fl :: "real \<Rightarrow> real" where
  "fl x =
     (if x = 0 then 0
      else let e = \<lfloor>log 2 \<bar>x\<bar>\<rfloor> - 52
           in of_int (round_even (x / 2 powi e)) * 2 powi e)"

text \<open>\<^verbatim>\<open>enumerate(xs)\<close>.\<close>

definition enumerate_list :: "'a list \<Rightarrow> (nat \<times> 'a) list" where
  "enumerate_list xs = zip [0..<length xs] xs"

subsection \<open>\<^verbatim>\<open>_find_ko_in_sekki\<close>\<close>

text \<open>The two local variables \<^verbatim>\<open>span\<close> and \<^verbatim>\<open>offset\<close> of \<^verbatim>\<open>_find_ko_in_sekki\<close>.\<close>

definition span_of :: "real \<Rightarrow> real \<Rightarrow> real" where
  "span_of sekki_lon next_sekki_lon =
     (if sekki_lon > next_sekki_lon then (360 - sekki_lon) + next_sekki_lon
      else next_sekki_lon - sekki_lon)"

definition offset_of :: "real \<Rightarrow> real \<Rightarrow> real \<Rightarrow> real" where
  "offset_of longitude sekki_lon next_sekki_lon =
     (if sekki_lon > next_sekki_lon then
        (if longitude \<ge> sekki_lon then longitude - sekki_lon
         else (360 - sekki_lon) + longitude)
      else longitude - sekki_lon)"

text \<open>
  \<^verbatim>\<open>ko_span = span / 3\<close> and \<^verbatim>\<open>ko_index = min(int(offset / ko_span), 2)\<close>, both divisions
  in floats: the second raises ZeroDivisionError when \<^verbatim>\<open>ko_span\<close> is zero.
\<close>

definition ko_index_of :: "real \<Rightarrow> real \<Rightarrow> error + int" where
  "ko_index_of offset span' =
     (let ko_span = fl (span' / 3)
      in if ko_span = 0 then Inl ZeroDivisionError
         else Inr (min (py_int (fl (offset / ko_span))) 2))"

definition find_ko_in_sekki :: "real \<Rightarrow> sekki \<Rightarrow> real \<Rightarrow> error + sekki \<times> ko \<times> int" where
  "find_ko_in_sekki longitude s next_sekki_lon =
     (let sekki_lon = sekki_longitude s;
          span' = span_of sekki_lon next_sekki_lon;
          offset = offset_of longitude sekki_lon next_sekki_lon
      in case ko_index_of offset span' of
           Inl e \<Rightarrow> Inl e
         | Inr ko_index \<Rightarrow>
             (case py_index (sekki_ko s) ko_index of
                Inl e \<Rightarrow> Inl e
              | Inr k \<Rightarrow> Inr (s, k, ko_index)))"

subsection \<open>\<^verbatim>\<open>find_current_ko\<close>\<close>

text \<open>The condition under which the loop body returns for a term and the start of the next.\<close>

definition in_range :: "real \<Rightarrow> real \<Rightarrow> real \<Rightarrow> bool" where
  "in_range longitude sekki_lon next_lon =
     (if sekki_lon > next_lon then longitude \<ge> sekki_lon \<or> longitude < next_lon
      else sekki_lon \<le> longitude \<and> longitude < next_lon)"

text \<open>The statement after the loop: \<^verbatim>\<open>return sekki_list[0], sekki_list[0]["ko"][0], 0\<close>.\<close>

definition fallback :: "sekki list \<Rightarrow> error + sekki \<times> ko \<times> int" where
  "fallback sekki_list =
     (case py_index sekki_list 0 of
        Inl e \<Rightarrow> Inl e
      | Inr s0 \<Rightarrow>
          (case py_index (sekki_ko s0) 0 of
             Inl e \<Rightarrow> Inl e
           | Inr k0 \<Rightarrow> Inr (s0, k0, 0)))"

text \<open>The loop \<^verbatim>\<open>for i, sekki in enumerate(sekki_list)\<close>, over the pairs still to visit.\<close>

fun find_loop :: "real \<Rightarrow> sekki list \<Rightarrow> (nat \<times> sekki) list \<Rightarrow> error + sekki \<times> ko \<times> int" where
  "find_loop longitude sekki_list [] = fallback sekki_list"
| "find_loop longitude sekki_list ((i, s) # rest) =
     (case py_index sekki_list (int ((i + 1) mod 24)) of
        Inl e \<Rightarrow> Inl e
      | Inr next_sekki \<Rightarrow>
          (let sekki_lon = sekki_longitude s;
               next_lon = sekki_longitude next_sekki
           in if in_range longitude sekki_lon next_lon
              then find_ko_in_sekki longitude s next_lon
              else find_loop longitude sekki_list rest))"

definition find_current_ko :: "real \<Rightarrow> sekki_data \<Rightarrow> error + sekki \<times> ko \<times> int" where
  "find_current_ko longitude data =
     (let sekki_list = sekki data
      in find_loop longitude sekki_list (enumerate_list sekki_list))"

subsection \<open>\<^verbatim>\<open>load_sekki_data\<close>\<close>

text \<open>
  What opening and parsing \<^verbatim>\<open>data/sekki.json\<close> can give: no file, a file that is not JSON,
  or the parsed document.
\<close>

datatype file_state = Missing | Unparsable | Document sekki_data

definition load_sekki_data :: "file_state \<Rightarrow> error + sekki_data" where
  "load_sekki_data f =
     (case f of
        Missing \<Rightarrow> Inl FileNotFoundError
      | Unparsable \<Rightarrow> Inl JSONDecodeError
      | Document d \<Rightarrow> Inr d)"

subsection \<open>\<^verbatim>\<open>format_message\<close>\<close>

definition ascii :: "string \<Rightarrow> ustring" where
  "ascii cs = map of_char cs"

text \<open>The list \<^verbatim>\<open>ko_names\<close>: U+521D U+5019, U+6B21 U+5019, U+672B U+5019.\<close>

definition ko_names :: "ustring list" where
  "ko_names = [[0x521D, 0x5019], [0x6B21, 0x5019], [0x672B, 0x5019]]"

text \<open>
  \<^verbatim>\<open>date.strftime\<close> is a parameter. The punctuation of the f-string is U+000A (newline),
  U+30FB, U+300C, U+300D, U+FF08 and U+FF09.
\<close>

definition format_message ::
  "('d \<Rightarrow> string \<Rightarrow> ustring) \<Rightarrow> 'd \<Rightarrow> sekki \<Rightarrow> ko \<Rightarrow> int \<Rightarrow> error + ustring" where
  "format_message strftime date s k ko_index =
     (let date_str = strftime date ''%Y/%m/%d''
      in case py_index ko_names ko_index of
           Inl e \<Rightarrow> Inl e
         | Inr label \<Rightarrow>
             Inr (ascii ''*'' @ date_str @ ascii '' dev-daily* '' @ ko_emoji k @ [0x0A]
                  @ ascii ''> '' @ sekki_name s @ [0x30FB] @ label
                  @ [0x300C] @ ko_name k @ [0x300D]
                  @ [0xFF08] @ ko_reading k @ [0xFF09]))"

subsection \<open>\<^verbatim>\<open>post_to_slack\<close>\<close>

definition ICON_URL :: ustring where
  "ICON_URL = ascii ''https://raw.githubusercontent.com/carrotRakko/koyomi-bot/main/assets/icon.png''"

definition BOT_NAME :: ustring where
  "BOT_NAME = [0x66A6, 0x307C, 0x3063, 0x3068]"

record payload =
  payload_text :: ustring
  payload_username :: ustring
  payload_icon_url :: ustring

text \<open>
  What \<^verbatim>\<open>requests.post\<close> does: it returns a response with a status code, or raises. What is
  raised is an instance of \<^verbatim>\<open>Exception\<close> (every exception of the transport is one), or a
  \<^verbatim>\<open>BaseException\<close> outside \<^verbatim>\<open>Exception\<close> (KeyboardInterrupt, SystemExit), which
  \<^verbatim>\<open>except Exception\<close> does not catch. Both carry their message.
\<close>

datatype raised = Exception ustring | NonException ustring

datatype http_result = Response int | Raises raised

text \<open>
  The result is the returned boolean with the lines printed, or the exception that leaves the
  function. The printed prefix is \<^verbatim>\<open>Slack \<close>, U+6295 U+7A3F U+30A8 U+30E9 U+30FC, \<^verbatim>\<open>: \<close>.
\<close>

definition post_to_slack ::
  "(ustring \<Rightarrow> payload \<Rightarrow> nat \<Rightarrow> http_result) \<Rightarrow> ustring \<Rightarrow> ustring
     \<Rightarrow> raised + bool \<times> ustring list" where
  "post_to_slack requests_post message webhook_url =
     (case requests_post webhook_url
             \<lparr>payload_text = message, payload_username = BOT_NAME, payload_icon_url = ICON_URL\<rparr>
             10 of
        Response status_code \<Rightarrow> Inr (status_code = 200, [])
      | Raises (Exception e) \<Rightarrow>
          Inr (False, [ascii ''Slack '' @ [0x6295, 0x7A3F, 0x30A8, 0x30E9, 0x30FC] @ ascii '': '' @ e])
      | Raises (NonException e) \<Rightarrow> Inl (NonException e))"

subsection \<open>Well-formed tables\<close>

text \<open>
  The invariants of the table: 24 terms, 3 micro-seasons in each, every start longitude in
  \<open>[0, 360)\<close>, and exactly one index \<open>i\<close> whose start longitude is greater than that of
  index \<open>(i + 1) mod 24\<close>.
\<close>

definition start_longitude :: "sekki_data \<Rightarrow> nat \<Rightarrow> real" where
  "start_longitude data i = sekki_longitude (sekki data ! i)"

definition wraps :: "sekki_data \<Rightarrow> nat \<Rightarrow> bool" where
  "wraps data i \<longleftrightarrow> start_longitude data i > start_longitude data ((i + 1) mod 24)"

definition well_formed :: "sekki_data \<Rightarrow> bool" where
  "well_formed data \<longleftrightarrow>
     length (sekki data) = 24
     \<and> list_all (\<lambda>s. length (sekki_ko s) = 3) (sekki data)
     \<and> list_all (\<lambda>s. 0 \<le> sekki_longitude s \<and> sekki_longitude s < 360) (sekki data)
     \<and> length (filter (wraps data) [0..<24]) = 1"

text \<open>The range condition of the loop for the term at index \<open>i\<close>.\<close>

definition term_active :: "real \<Rightarrow> sekki_data \<Rightarrow> nat \<Rightarrow> bool" where
  "term_active longitude data i \<longleftrightarrow>
     in_range longitude (start_longitude data i) (start_longitude data ((i + 1) mod 24))"

text \<open>The indices, in the order of the loop, whose range condition holds.\<close>

definition active_terms :: "real \<Rightarrow> sekki_data \<Rightarrow> nat list" where
  "active_terms longitude data = filter (term_active longitude data) [0..<24]"

text \<open>
  The normalization of a longitude into \<open>[0, 360)\<close>, which \<^verbatim>\<open>find_current_ko\<close> does not
  apply: Python's \<^verbatim>\<open>x % 360\<close>.
\<close>

definition mod_360 :: "real \<Rightarrow> real" where
  "mod_360 x = x - 360 * of_int \<lfloor>x / 360\<rfloor>"

subsection \<open>\<^verbatim>\<open>main\<close>: from the loaded data to the resolved micro-season\<close>

text \<open>
  The statements \<^verbatim>\<open>data = load_sekki_data()\<close> and
  \<^verbatim>\<open>sekki, ko, ko_index = find_current_ko(longitude, data)\<close> of \<^verbatim>\<open>main\<close>, for a given
  longitude: an exception of the load ends the run, anything loaded goes to the resolution.
\<close>

definition main_resolve :: "file_state \<Rightarrow> real \<Rightarrow> error + sekki \<times> ko \<times> int" where
  "main_resolve f longitude =
     (case load_sekki_data f of
        Inl e \<Rightarrow> Inl e
      | Inr data \<Rightarrow> find_current_ko longitude data)"

subsection \<open>Example inputs\<close>

text \<open>
  \<^verbatim>\<open>data/sekki.json\<close> is not among the sources. The tables below have the shape the code
  reads, with placeholder names; only the start longitudes matter.
\<close>

definition mk_ko :: "nat \<Rightarrow> nat \<Rightarrow> ko" where
  "mk_ko n j = \<lparr>ko_name = [0x6B, n, j], ko_reading = [0x72, n, j], ko_emoji = [0x1F300 + 3 * n + j]\<rparr>"

definition mk_sekki :: "nat \<Rightarrow> real \<Rightarrow> sekki" where
  "mk_sekki n lon =
     \<lparr>sekki_name = [0x73, n], sekki_reading = [0x52, n], sekki_longitude = lon,
      sekki_ko = [mk_ko n 0, mk_ko n 1, mk_ko n 2]\<rparr>"

definition mk_table :: "real list \<Rightarrow> sekki_data" where
  "mk_table lons = \<lparr>sekki = map (\<lambda>(n, lon). mk_sekki n lon) (enumerate_list lons)\<rparr>"

text \<open>Terms of 15 degrees from 315; the term at index 2 (345 to 0) wraps.\<close>

definition regular_table :: sekki_data where
  "regular_table =
     mk_table [315, 330, 345, 0, 15, 30, 45, 60, 75, 90, 105, 120,
               135, 150, 165, 180, 195, 210, 225, 240, 255, 270, 285, 300]"

text \<open>The same terms moved by 5 degrees; the term at index 2 (350 to 5) wraps.\<close>

definition shifted_table :: sekki_data where
  "shifted_table =
     mk_table [320, 335, 350, 5, 20, 35, 50, 65, 80, 95, 110, 125,
               140, 155, 170, 185, 200, 215, 230, 245, 260, 275, 290, 305]"

text \<open>
  As \<open>regular_table\<close>, but the term at index 3 is empty: it starts at 0 and so does the next.
\<close>

definition repeated_start_table :: sekki_data where
  "repeated_start_table =
     mk_table [315, 330, 345, 0, 0, 30, 45, 60, 75, 90, 105, 120,
               135, 150, 165, 180, 195, 210, 225, 240, 255, 270, 285, 300]"

text \<open>24 terms that all start at 0: no range condition holds for any longitude.\<close>

definition constant_table :: sekki_data where
  "constant_table = mk_table (replicate 24 0)"

text \<open>Two terms only, and four micro-seasons in the first.\<close>

definition short_table :: sekki_data where
  "short_table =
     \<lparr>sekki = [(mk_sekki 0 0)\<lparr>sekki_ko := [mk_ko 0 0, mk_ko 0 1, mk_ko 0 2, mk_ko 0 3]\<rparr>,
               mk_sekki 1 180]\<rparr>"

text \<open>A \<^verbatim>\<open>strftime\<close> for dates given as year, month and day: digits, zero-padded.\<close>

definition digits2 :: "nat \<Rightarrow> ustring" where
  "digits2 n = [0x30 + (n div 10) mod 10, 0x30 + n mod 10]"

definition example_strftime :: "nat \<times> nat \<times> nat \<Rightarrow> string \<Rightarrow> ustring" where
  "example_strftime date fmt =
     (case date of (y, m, d) \<Rightarrow>
        digits2 (y div 100) @ digits2 (y mod 100) @ [0x2F] @ digits2 m @ [0x2F] @ digits2 d)"

text \<open>Three transports: they always answer 200, always answer 204, always time out.\<close>

definition post_200 :: "ustring \<Rightarrow> payload \<Rightarrow> nat \<Rightarrow> http_result" where
  "post_200 url body timeout = Response 200"

definition post_204 :: "ustring \<Rightarrow> payload \<Rightarrow> nat \<Rightarrow> http_result" where
  "post_204 url body timeout = Response 204"

definition post_timeout :: "ustring \<Rightarrow> payload \<Rightarrow> nat \<Rightarrow> http_result" where
  "post_timeout url body timeout = Raises (Exception (ascii ''timed out''))"

subsection \<open>The cycle of start longitudes, read from the wrapping term\<close>

text \<open>
  For start longitudes \<open>s 0, \<dots>, s 23\<close> with a single descent at \<open>w\<close>, the sequence read
  from \<open>w + 1\<close> around the cycle is \<open>rot s w 0, \<dots>, rot s w 23\<close>; it is nondecreasing and
  ends at \<open>s w\<close>.
\<close>

definition rot :: "(nat \<Rightarrow> real) \<Rightarrow> nat \<Rightarrow> nat \<Rightarrow> real" where
  "rot s w m = s ((w + 1 + m) mod 24)"

section \<open>Auxiliary facts\<close>

subsection \<open>Rounding to a double\<close>

lemma round_even_of_int: "round_even (of_int n) = n"
  by (simp add: round_even_def)

lemma round_even_ge: "of_int n \<le> x \<Longrightarrow> n \<le> round_even x"
proof -
  assume "of_int n \<le> x"
  then have "n \<le> \<lfloor>x\<rfloor>"
    by (simp add: le_floor_iff)
  then show ?thesis
    by (simp add: round_even_def Let_def)
qed

lemma round_even_le: "x \<le> of_int n \<Longrightarrow> round_even x \<le> n"
proof -
  assume a: "x \<le> of_int n"
  show ?thesis
  proof (cases "x = of_int n")
    case True
    then show ?thesis by (simp add: round_even_of_int)
  next
    case False
    then have "x < of_int n" using a by simp
    then have "\<lfloor>x\<rfloor> < n" by (simp add: floor_less_iff)
    then have "\<lfloor>x\<rfloor> + 1 \<le> n" by simp
    moreover have "\<lfloor>x\<rfloor> \<le> n" using \<open>\<lfloor>x\<rfloor> < n\<close> by simp
    ultimately show ?thesis
      by (simp add: round_even_def Let_def)
  qed
qed

lemma round_even_error: "\<bar>of_int (round_even x) - x\<bar> \<le> 1 / 2"
proof -
  have "of_int \<lfloor>x\<rfloor> \<le> x" and "x < of_int \<lfloor>x\<rfloor> + 1"
    by linarith+
  then show ?thesis
    by (auto simp add: round_even_def Let_def abs_le_iff)
qed

lemma floor_log2_iff:
  assumes "0 < x"
  shows "\<lfloor>log 2 x\<rfloor> = p \<longleftrightarrow> 2 powi p \<le> x \<and> x < 2 powi (p + 1)"
proof -
  have "(2::real) powr of_int k = 2 powi k" for k
    by (simp add: powr_real_of_int')
  then show ?thesis
    using floor_log_eq_powr_iff [of x 2 p] assms
    by (metis one_less_numeral_iff semiring_norm(76))
qed

lemma floor_log2_bounds:
  assumes "0 < x"
  shows "2 powi \<lfloor>log 2 x\<rfloor> \<le> x" and "x < 2 powi (\<lfloor>log 2 x\<rfloor> + 1)"
  using floor_log2_iff [OF assms, of "\<lfloor>log 2 x\<rfloor>"] by simp_all


text \<open>The scaled value of a nonzero \<open>x\<close> lies between \<open>2 ^ 52\<close> and \<open>2 ^ 53\<close> in magnitude.\<close>

lemma fl_unfold:
  assumes "2 powi p \<le> \<bar>x\<bar>" and "\<bar>x\<bar> < 2 powi (p + 1)"
  shows "fl x = of_int (round_even (x / 2 powi (p - 52))) * 2 powi (p - 52)"
proof -
  have "(0::real) < 2 powi p"
    by simp
  then have pos: "0 < \<bar>x\<bar>"
    using assms(1) by linarith
  then have "\<lfloor>log 2 \<bar>x\<bar>\<rfloor> = p"
    using assms by (simp add: floor_log2_iff)
  moreover have "x \<noteq> 0"
    using pos by simp
  ultimately show ?thesis
    by (simp add: fl_def Let_def)
qed

lemma scaled_bounds:
  fixes y :: real
  assumes "2 powi p \<le> y" and "y < 2 powi (p + 1)"
  shows "2 ^ 52 \<le> y / 2 powi (p - 52)" and "y / 2 powi (p - 52) < 2 ^ 53"
proof -
  have e: "(2::real) powi p = 2 powi (p - 52) * 2 ^ 52"
    by (simp add: power_int_diff)
  have e1: "(2::real) powi (p + 1) = 2 powi (p - 52) * 2 ^ 53"
    by (simp add: power_int_diff power_int_add)
  have pos: "(0::real) < 2 powi (p - 52)"
    by simp
  show "2 ^ 52 \<le> y / 2 powi (p - 52)"
    using assms(1) pos unfolding e by (simp add: pos_le_divide_eq mult.commute)
  show "y / 2 powi (p - 52) < 2 ^ 53"
    using assms(2) pos unfolding e1 by (simp add: pos_divide_less_eq mult.commute)
qed

lemma fl_pos_bounds:
  assumes "2 powi p \<le> x" and "x < 2 powi (p + 1)"
  shows "2 powi p \<le> fl x" and "fl x \<le> 2 powi (p + 1)"
    and "\<bar>fl x - x\<bar> \<le> 2 powi (p - 53)"
proof -
  have pos: "(0::real) < 2 powi (p - 52)"
    by simp
  have "(0::real) < 2 powi p"
    by simp
  then have x: "0 < x"
    using assms(1) by linarith
  define s where "s = x / 2 powi (p - 52)"
  have xs: "x = s * 2 powi (p - 52)"
    by (simp add: s_def)
  have s: "2 ^ 52 \<le> s" "s < 2 ^ 53"
    using scaled_bounds [OF assms] by (simp_all add: s_def)
  have f: "fl x = of_int (round_even s) * 2 powi (p - 52)"
    using fl_unfold [of p x] assms x by (simp add: s_def)
  have "of_int (2 ^ 52) \<le> s" and "s \<le> of_int (2 ^ 53)"
    using s by simp_all
  then have r: "2 ^ 52 \<le> round_even s" "round_even s \<le> 2 ^ 53"
    using round_even_ge [of "2 ^ 52" s] round_even_le [of s "2 ^ 53"] by blast+
  then have rr: "(2::real) ^ 52 \<le> of_int (round_even s)" "of_int (round_even s) \<le> (2::real) ^ 53"
    by (metis of_int_le_iff of_int_numeral of_int_power)+
  have e: "(2::real) powi p = 2 ^ 52 * 2 powi (p - 52)"
    by (simp add: power_int_diff)
  have e1: "(2::real) powi (p + 1) = 2 ^ 53 * 2 powi (p - 52)"
    by (simp add: power_int_diff power_int_add)
  show "2 powi p \<le> fl x"
    unfolding f e using rr(1) pos by (simp only: mult_le_cancel_right_pos)
  show "fl x \<le> 2 powi (p + 1)"
    unfolding f e1 using rr(2) pos by (simp only: mult_le_cancel_right_pos)
  have "s * 2 powi (p - 52) = x"
    by (simp add: s_def)
  then have "fl x - x = (of_int (round_even s) - s) * 2 powi (p - 52)"
    unfolding f by (simp only: left_diff_distrib)
  then have "\<bar>fl x - x\<bar> = \<bar>of_int (round_even s) - s\<bar> * 2 powi (p - 52)"
    by (simp add: abs_mult)
  also have "\<dots> \<le> (1 / 2) * 2 powi (p - 52)"
    using round_even_error [of s] pos by (simp only: mult_le_cancel_right_pos)
  also have "\<dots> = 2 powi (p - 53)"
    by (simp add: power_int_diff)
  finally show "\<bar>fl x - x\<bar> \<le> 2 powi (p - 53)" .
qed


lemma fl_0: "fl 0 = 0"
  by (simp add: fl_def)

lemma fl_pos: "0 < x \<Longrightarrow> 0 < fl x"
proof -
  assume x: "0 < x"
  have "(0::real) < 2 powi \<lfloor>log 2 x\<rfloor>"
    by simp
  also have "\<dots> \<le> fl x"
    using fl_pos_bounds(1) [OF floor_log2_bounds [OF x]] .
  finally show ?thesis .
qed

lemma fl_nonneg: "0 \<le> x \<Longrightarrow> 0 \<le> fl x"
  using fl_pos [of x] by (cases "x = 0") (simp_all add: fl_0)

lemma pow2_less_imp: "(2::real) powi j < 2 powi k \<Longrightarrow> j < k"
proof (rule ccontr)
  assume a: "(2::real) powi j < 2 powi k" and "\<not> j < k"
  then have "k \<le> j"
    by simp
  then have "(2::real) powi k \<le> 2 powi j"
    by (intro power_int_increasing) simp_all
  then show False
    using a by simp
qed

lemma pow2_mono: "j \<le> k \<Longrightarrow> (2::real) powi j \<le> 2 powi k"
  by (intro power_int_increasing) simp_all

lemma fl_ge_pow:
  assumes "2 powi j \<le> x"
  shows "2 powi j \<le> fl x"
proof -
  have "(0::real) < 2 powi j"
    by simp
  then have x: "0 < x"
    using assms by linarith
  let ?p = "\<lfloor>log 2 x\<rfloor>"
  have "(2::real) powi j < 2 powi (?p + 1)"
    using assms floor_log2_bounds(2) [OF x] by linarith
  then have "j < ?p + 1"
    by (rule pow2_less_imp)
  then have "(2::real) powi j \<le> 2 powi ?p"
    by (intro pow2_mono) simp
  also have "\<dots> \<le> fl x"
    using fl_pos_bounds(1) [OF floor_log2_bounds [OF x]] .
  finally show ?thesis .
qed

lemma fl_le_neg_pow:
  assumes "x \<le> - (2 powi j)"
  shows "fl x \<le> - (2 powi j)"
proof -
  have "(0::real) < 2 powi j"
    by simp
  then have x: "x < 0"
    using assms by linarith
  let ?p = "\<lfloor>log 2 \<bar>x\<bar>\<rfloor>"
  have ax: "0 < \<bar>x\<bar>"
    using x by simp
  have b: "2 powi ?p \<le> \<bar>x\<bar>" "\<bar>x\<bar> < 2 powi (?p + 1)"
    using floor_log2_bounds [OF ax] .
  have "(2::real) powi j < 2 powi (?p + 1)"
    using assms b(2) x by linarith
  then have "j < ?p + 1"
    by (rule pow2_less_imp)
  then have jp: "(2::real) powi j \<le> 2 powi ?p"
    by (intro pow2_mono) simp
  have pos: "(0::real) < 2 powi (?p - 52)"
    by simp
  have "2 ^ 52 \<le> \<bar>x\<bar> / 2 powi (?p - 52)"
    using scaled_bounds(1) [OF b] .
  then have "x / 2 powi (?p - 52) \<le> of_int (- (2 ^ 52))"
    using x by (simp add: abs_if)
  then have "round_even (x / 2 powi (?p - 52)) \<le> - (2 ^ 52)"
    by (rule round_even_le)
  then have "(of_int (round_even (x / 2 powi (?p - 52))) :: real) \<le> of_int (- (2 ^ 52))"
    by (simp only: of_int_le_iff)
  then have "of_int (round_even (x / 2 powi (?p - 52))) * 2 powi (?p - 52)
      \<le> (of_int (- (2 ^ 52)) :: real) * 2 powi (?p - 52)"
    using pos by (simp only: mult_le_cancel_right_pos)
  also have "\<dots> = - (2 powi ?p)"
    by (simp add: power_int_diff)
  finally have "fl x \<le> - (2 powi ?p)"
    unfolding fl_unfold [OF b] .
  then show ?thesis
    using jp by linarith
qed

lemma fl_rel_error:
  assumes "0 < x"
  shows "fl x \<le> x * (1 + 1 / 2 ^ 53)" and "x * (1 - 1 / 2 ^ 53) \<le> fl x"
proof -
  let ?p = "\<lfloor>log 2 x\<rfloor>"
  have b: "2 powi ?p \<le> x" "x < 2 powi (?p + 1)"
    using floor_log2_bounds [OF assms] .
  have "\<bar>fl x - x\<bar> \<le> 2 powi (?p - 53)"
    using fl_pos_bounds(3) [OF b] .
  also have "\<dots> = 2 powi ?p / 2 ^ 53"
    by (simp add: power_int_diff)
  also have "\<dots> \<le> x / 2 ^ 53"
    using b(1) by (simp add: divide_right_mono)
  finally have "\<bar>fl x - x\<bar> \<le> x / 2 ^ 53" .
  moreover define c where "c = x / 2 ^ 53"
  ultimately have "\<bar>fl x - x\<bar> \<le> c"
    by simp
  then have "fl x \<le> x + c" and "x - c \<le> fl x"
    by linarith+
  moreover have "x * (1 + 1 / 2 ^ 53) = x + c" and "x * (1 - 1 / 2 ^ 53) = x - c"
    unfolding c_def by (simp_all only: distrib_left right_diff_distrib mult_1_right times_divide_eq_right)
  ultimately show "fl x \<le> x * (1 + 1 / 2 ^ 53)" and "x * (1 - 1 / 2 ^ 53) \<le> fl x"
    by simp_all
qed


lemma fl_dyadic:
  assumes "\<bar>m\<bar> < 2 ^ 53"
  shows "fl (of_int m * 2 powi e) = of_int m * 2 powi e"
proof (cases "m = 0")
  case True
  then show ?thesis by (simp add: fl_0)
next
  case False
  define x :: real where "x = of_int m * 2 powi e"
  have ax: "\<bar>x\<bar> = of_int \<bar>m\<bar> * 2 powi e"
    by (simp add: x_def abs_mult)
  have pos: "0 < \<bar>x\<bar>"
    using False by (simp add: x_def)
  define p where "p = \<lfloor>log 2 \<bar>x\<bar>\<rfloor>"
  have b: "2 powi p \<le> \<bar>x\<bar>" "\<bar>x\<bar> < 2 powi (p + 1)"
    using floor_log2_bounds [OF pos] by (simp_all add: p_def)
  have "(of_int \<bar>m\<bar> :: real) < of_int (2 ^ 53)"
    using assms by (simp only: of_int_less_iff)
  then have "of_int \<bar>m\<bar> * 2 powi e < (2 ^ 53 :: real) * 2 powi e"
    by (simp add: mult_less_cancel_right_pos)
  also have "\<dots> = 2 powi (e + 53)"
    by (simp add: power_int_add)
  finally have "(2::real) powi p < 2 powi (e + 53)"
    using b(1) ax by linarith
  then have "p < e + 53"
    by (rule pow2_less_imp)
  then have k: "0 \<le> e + 52 - p"
    by simp
  have "(2::real) powi e / 2 powi (p - 52) = 2 powi (e + 52 - p)"
    by (simp add: power_int_diff power_int_add field_simps)
  also have "\<dots> = of_int (2 ^ nat (e + 52 - p))"
    using k by (simp add: power_int_def)
  finally have "of_int m * ((2::real) powi e / 2 powi (p - 52))
      = of_int m * of_int (2 ^ nat (e + 52 - p))"
    by (simp only:)
  then have "x / 2 powi (p - 52) = of_int (m * 2 ^ nat (e + 52 - p))"
    unfolding x_def by (simp only: times_divide_eq_right of_int_mult)
  then have "round_even (x / 2 powi (p - 52)) = m * 2 ^ nat (e + 52 - p)"
    by (simp only: round_even_of_int)
  then have "of_int (round_even (x / 2 powi (p - 52))) = x / 2 powi (p - 52)"
    using \<open>x / 2 powi (p - 52) = of_int (m * 2 ^ nat (e + 52 - p))\<close> by simp
  then have "fl x = x / 2 powi (p - 52) * 2 powi (p - 52)"
    using fl_unfold [OF b] by simp
  then show ?thesis
    by (simp add: x_def)
qed

lemma fl_of_int: "\<bar>m\<bar> < 2 ^ 53 \<Longrightarrow> fl (of_int m) = of_int m"
  using fl_dyadic [of m 0] by simp





lemma fl_fl_pos:
  assumes "0 < x"
  shows "fl (fl x) = fl x"
proof -
  define p where "p = \<lfloor>log 2 x\<rfloor>"
  have b: "2 powi p \<le> x" "x < 2 powi (p + 1)"
    using floor_log2_bounds [OF assms] by (simp_all add: p_def)
  have ab: "2 powi p \<le> \<bar>x\<bar>" "\<bar>x\<bar> < 2 powi (p + 1)"
    using b assms by simp_all
  define r where "r = round_even (x / 2 powi (p - 52))"
  have f: "fl x = of_int r * 2 powi (p - 52)"
    using fl_unfold [OF ab] by (simp add: r_def)
  have "of_int (2 ^ 52) \<le> x / 2 powi (p - 52)" and "x / 2 powi (p - 52) \<le> of_int (2 ^ 53)"
    using scaled_bounds [OF b] by simp_all
  then have r: "2 ^ 52 \<le> r" "r \<le> 2 ^ 53"
    unfolding r_def using round_even_ge round_even_le by blast+
  show ?thesis
  proof (cases "r = 2 ^ 53")
    case True
    define q where "q = p - 52"
    have "(2::real) powi (q + 1) = 2 * 2 powi q"
      by (simp add: power_int_add)
    then have "(of_int r :: real) * 2 powi q = of_int (2 ^ 52) * 2 powi (q + 1)"
      unfolding True by simp
    moreover have "\<bar>2 ^ 52 :: int\<bar> < 2 ^ 53"
      by simp
    ultimately show ?thesis
      unfolding f q_def [symmetric] using fl_dyadic [of "2 ^ 52" "q + 1"] by (simp only:)
  next
    case False
    then have "\<bar>r\<bar> < 2 ^ 53"
      using r by simp
    then show ?thesis
      unfolding f by (rule fl_dyadic)
  qed
qed






lemma fl_quotient_ge_2:
  assumes "0 < k" and "2 * k \<le> x"
  shows "2 \<le> fl (x / k)"
proof -
  have "2 powi 1 \<le> x / k"
    using assms by (simp add: pos_le_divide_eq)
  then have "2 powi 1 \<le> fl (x / k)"
    by (rule fl_ge_pow)
  then show ?thesis
    by simp
qed

lemma fl_numeral: "numeral n < (2::int) ^ 53 \<Longrightarrow> fl (numeral n) = numeral n"
  using fl_of_int [of "numeral n"] by simp

lemma fl_neg_numeral: "numeral n < (2::int) ^ 53 \<Longrightarrow> fl (- numeral n) = - numeral n"
  using fl_of_int [of "- numeral n"] by simp

lemma fl_1: "fl 1 = 1"
  using fl_of_int [of 1] by simp

text \<open>The rounded third of a positive span is positive, a double, and at most half the span.\<close>

lemma ko_span_bounds:
  assumes "0 < W"
  shows "0 < fl (W / 3)" and "fl (fl (W / 3)) = fl (W / 3)" and "2 * fl (W / 3) \<le> W"
    and "W / 3 * (1 - 1 / 2 ^ 53) \<le> fl (W / 3)" and "fl (W / 3) \<le> W / 3 * (1 + 1 / 2 ^ 53)"
proof -
  have t: "0 < W / 3"
    using assms by simp
  show "0 < fl (W / 3)"
    using t by (rule fl_pos)
  show "fl (fl (W / 3)) = fl (W / 3)"
    using t by (rule fl_fl_pos)
  show up: "fl (W / 3) \<le> W / 3 * (1 + 1 / 2 ^ 53)"
    and "W / 3 * (1 - 1 / 2 ^ 53) \<le> fl (W / 3)"
    using fl_rel_error [OF t] by simp_all
  have "(1::real) + 1 / 2 ^ 53 \<le> 3 / 2"
    by simp
  then have "W / 3 * (1 + 1 / 2 ^ 53) \<le> W / 3 * (3 / 2)"
    using t by (simp only: mult_le_cancel_left_pos)
  then show "2 * fl (W / 3) \<le> W"
    using up by simp
qed

lemma fl_1_3: "fl (1 / 3) = 6004799503160661 / 18014398509481984"
proof -
  have "fl (1 / 3) = of_int (round_even ((1 / 3) / 2 powi (- 2 - 52))) * 2 powi (- 2 - 52)"
    by (rule fl_unfold) (simp_all add: power_int_minus)
  also have "(1 / 3 :: real) / 2 powi (- 2 - 52) = 18014398509481984 / 3"
    by (simp add: power_int_minus)
  also have "round_even (18014398509481984 / 3) = 6004799503160661"
    by (simp add: round_even_def Let_def)
  finally show ?thesis
    by (simp add: power_int_minus)
qed

lemma fl_12_5: "fl (12 / 5) = 5404319552844595 / 2251799813685248"
proof -
  have "fl (12 / 5) = of_int (round_even ((12 / 5) / 2 powi (1 - 52))) * 2 powi (1 - 52)"
    by (rule fl_unfold) (simp_all add: power_int_minus)
  also have "(12 / 5 :: real) / 2 powi (1 - 52) = 27021597764222976 / 5"
    by (simp add: power_int_minus)
  also have "round_even (27021597764222976 / 5) = 5404319552844595"
    by (simp add: round_even_def Let_def)
  finally show ?thesis
    by (simp add: power_int_minus)
qed

lemma fl_1_6: "fl (1 / 6) = 6004799503160661 / 36028797018963968"
proof -
  have "fl (1 / 6) = of_int (round_even ((1 / 6) / 2 powi (- 3 - 52))) * 2 powi (- 3 - 52)"
    by (rule fl_unfold) (simp_all add: power_int_minus)
  also have "(1 / 6 :: real) / 2 powi (- 3 - 52) = 18014398509481984 / 3"
    by (simp add: power_int_minus)
  also have "round_even (18014398509481984 / 3) = 6004799503160661"
    by (simp add: round_even_def Let_def)
  finally show ?thesis
    by (simp add: power_int_minus)
qed

subsection \<open>Python primitives: basic facts\<close>

lemma py_index_nat: "i < length xs \<Longrightarrow> py_index xs (int i) = Inr (xs ! i)"
  by (simp add: py_index_def)

lemma py_index_range:
  "0 \<le> i \<Longrightarrow> i < int (length xs) \<Longrightarrow> py_index xs i = Inr (xs ! nat i)"
  by (simp add: py_index_def)

lemma py_index_below: "i < - int (length xs) \<Longrightarrow> py_index xs i = Inl IndexError"
  by (simp add: py_index_def Let_def)

lemma py_int_nonneg: "0 \<le> x \<Longrightarrow> py_int x = \<lfloor>x\<rfloor>"
  by (simp add: py_int_def)

lemma enumerate_list_drop:
  "i < length xs \<Longrightarrow>
     drop i (enumerate_list xs) = (i, xs ! i) # drop (Suc i) (enumerate_list xs)"
  by (simp add: enumerate_list_def flip: Cons_nth_drop_Suc)

lemma enumerate_list_drop_all: "drop (length xs) (enumerate_list xs) = []"
  by (simp add: enumerate_list_def)

subsection \<open>The loop returns at the first term whose range condition holds\<close>

lemma find_loop_step:
  assumes "length (sekki data) = 24" and "i < 24"
  shows "find_loop L (sekki data) (drop i (enumerate_list (sekki data))) =
           (if term_active L data i
            then find_ko_in_sekki L (sekki data ! i) (start_longitude data ((i + 1) mod 24))
            else find_loop L (sekki data) (drop (Suc i) (enumerate_list (sekki data))))"
proof -
  have nxt: "(i + 1) mod 24 < length (sekki data)"
    using assms by simp
  have "py_index (sekki data) (int ((i + 1) mod 24)) = Inr (sekki data ! ((i + 1) mod 24))"
    using nxt by (rule py_index_nat)
  then show ?thesis
    using assms
    by (simp add: enumerate_list_drop term_active_def start_longitude_def Let_def
        del: One_nat_def)
qed

lemma find_loop_first:
  assumes len: "length (sekki data) = 24"
    and k: "k < 24" and act: "term_active L data k"
    and before: "\<forall>j<k. \<not> term_active L data j"
    and ik: "i \<le> k"
  shows "find_loop L (sekki data) (drop i (enumerate_list (sekki data))) =
           find_ko_in_sekki L (sekki data ! k) (start_longitude data ((k + 1) mod 24))"
  using ik
proof (induction "k - i" arbitrary: i)
  case 0
  then have "i = k" by simp
  then show ?case
    using find_loop_step [OF len k, of L] act by simp
next
  case (Suc d)
  then have lt: "i < k" and d: "d = k - Suc i" and le: "Suc i \<le> k"
    by simp_all
  have "\<not> term_active L data i"
    using before lt by simp
  moreover have "i < 24"
    using lt k by simp
  ultimately have "find_loop L (sekki data) (drop i (enumerate_list (sekki data))) =
      find_loop L (sekki data) (drop (Suc i) (enumerate_list (sekki data)))"
    using find_loop_step [OF len, of i L] by simp
  then show ?case
    using Suc.hyps(1) [OF d le] by simp
qed

lemma find_loop_none:
  assumes len: "length (sekki data) = 24"
    and none: "\<forall>j<24. \<not> term_active L data j"
    and i: "i \<le> 24"
  shows "find_loop L (sekki data) (drop i (enumerate_list (sekki data))) = fallback (sekki data)"
  using i
proof (induction "24 - i" arbitrary: i)
  case 0
  then have "i = length (sekki data)"
    using len by simp
  then show ?case
    by (simp add: enumerate_list_drop_all)
next
  case (Suc d)
  then have lt: "i < 24" and d: "d = 24 - Suc i" and le: "Suc i \<le> 24"
    by simp_all
  have "\<not> term_active L data i"
    using none lt by simp
  then have "find_loop L (sekki data) (drop i (enumerate_list (sekki data))) =
      find_loop L (sekki data) (drop (Suc i) (enumerate_list (sekki data)))"
    using find_loop_step [OF len lt, of L] by simp
  then show ?case
    using Suc.hyps(1) [OF d le] by simp
qed

lemma find_current_ko_first:
  assumes "length (sekki data) = 24" and "k < 24" and "term_active L data k"
    and "\<forall>j<k. \<not> term_active L data j"
  shows "find_current_ko L data =
           find_ko_in_sekki L (sekki data ! k) (start_longitude data ((k + 1) mod 24))"
  using find_loop_first [OF assms, of 0] by (simp add: find_current_ko_def Let_def)

lemma find_current_ko_none:
  assumes "length (sekki data) = 24" and "\<forall>j<24. \<not> term_active L data j"
  shows "find_current_ko L data = fallback (sekki data)"
  using find_loop_none [OF assms, of 0] by (simp add: find_current_ko_def Let_def)

subsection \<open>Exactly one range condition holds in a cycle with one descent\<close>

lemma rot_last: "w < 24 \<Longrightarrow> rot s w 23 = s w"
  by (simp add: rot_def)

lemma rot_first: "rot s w 0 = s ((w + 1) mod 24)"
  by (simp add: rot_def)

lemma mod24: "a < 48 \<Longrightarrow> a mod 24 = (if a < 24 then a else a - (24::nat))"
  by (simp add: le_mod_geq)

lemma rot_index_neq: "w < 24 \<Longrightarrow> m < 23 \<Longrightarrow> (w + 1 + m) mod 24 \<noteq> (w::nat)"
  by (simp add: mod24) arith

lemma rot_index_Suc: "((w + 1 + m) mod 24 + 1) mod 24 = (w + 1 + Suc m) mod (24::nat)"
  by (simp add: mod_Suc_eq)

lemma rot_index_onto:
  "w < 24 \<Longrightarrow> i < 24 \<Longrightarrow> (w + 1 + (i + 23 - w) mod 24) mod 24 = (i::nat)"
  by (simp add: mod24)

lemma rot_index_inv:
  "w < 24 \<Longrightarrow> m < 24 \<Longrightarrow> ((w + 1 + m) mod 24 + 23 - w) mod 24 = (m::nat)"
  by (simp add: mod24)

lemma rot_step:
  fixes s :: "nat \<Rightarrow> real"
  assumes "w < 24" and "\<forall>j<24. j \<noteq> w \<longrightarrow> s j \<le> s ((j + 1) mod 24)" and "m < 23"
  shows "rot s w m \<le> rot s w (Suc m)"
proof -
  have "(w + 1 + m) mod 24 < 24" by simp
  moreover have "(w + 1 + m) mod 24 \<noteq> w"
    using assms(1,3) by (rule rot_index_neq)
  ultimately have "s ((w + 1 + m) mod 24) \<le> s (((w + 1 + m) mod 24 + 1) mod 24)"
    using assms(2) by blast
  then show ?thesis
    unfolding rot_def rot_index_Suc .
qed

lemma rot_mono:
  fixes s :: "nat \<Rightarrow> real"
  assumes "w < 24" and "\<forall>j<24. j \<noteq> w \<longrightarrow> s j \<le> s ((j + 1) mod 24)"
  shows "m \<le> m' \<Longrightarrow> m' \<le> 23 \<Longrightarrow> rot s w m \<le> rot s w m'"
proof (induction m')
  case 0
  then show ?case by simp
next
  case (Suc m')
  show ?case
  proof (cases "m = Suc m'")
    case True
    then show ?thesis by simp
  next
    case False
    then have "m \<le> m'" and "m' \<le> 23" and "m' < 23"
      using Suc.prems by simp_all
    then have "rot s w m \<le> rot s w m'" and "rot s w m' \<le> rot s w (Suc m')"
      using Suc.IH rot_step [OF assms] by simp_all
    then show ?thesis by simp
  qed
qed

lemma crossing:
  fixes g :: "nat \<Rightarrow> real"
  shows "g 0 \<le> L \<Longrightarrow> L < g n \<Longrightarrow> \<exists>m<n. g m \<le> L \<and> L < g (Suc m)"
proof (induction n)
  case 0
  then show ?case by simp
next
  case (Suc n)
  show ?case
  proof (cases "L < g n")
    case True
    then obtain m where "m < n" and "g m \<le> L \<and> L < g (Suc m)"
      using Suc by blast
    then show ?thesis
      using less_Suc_eq by blast
  next
    case False
    then show ?thesis
      using Suc.prems by auto
  qed
qed

lemma in_range_rot:
  fixes s :: "nat \<Rightarrow> real"
  assumes w: "w < 24" and desc: "s ((w + 1) mod 24) < s w"
    and asc: "\<forall>j<24. j \<noteq> w \<longrightarrow> s j \<le> s ((j + 1) mod 24)"
    and m: "m < 24"
  shows "in_range L (s ((w + 1 + m) mod 24)) (s (((w + 1 + m) mod 24 + 1) mod 24)) \<longleftrightarrow>
           (if m = 23 then rot s w 23 \<le> L \<or> L < rot s w 0
            else rot s w m \<le> L \<and> L < rot s w (Suc m))"
proof (cases "m = 23")
  case True
  then have "(w + 1 + m) mod 24 = w"
    using w by simp
  then show ?thesis
    using True desc w by (simp add: in_range_def rot_def)
next
  case False
  then have "m < 23" using m by simp
  then have "rot s w m \<le> rot s w (Suc m)"
    using rot_step [OF w asc] by simp
  then show ?thesis
    using False unfolding rot_index_Suc by (auto simp add: in_range_def rot_def)
qed

lemma rot_unique:
  fixes s :: "nat \<Rightarrow> real"
  assumes w: "w < 24" and desc: "s ((w + 1) mod 24) < s w"
    and asc: "\<forall>j<24. j \<noteq> w \<longrightarrow> s j \<le> s ((j + 1) mod 24)"
  shows "\<exists>m<24. \<forall>m'<24.
           (if m' = 23 then rot s w 23 \<le> L \<or> L < rot s w 0
            else rot s w m' \<le> L \<and> L < rot s w (Suc m')) \<longleftrightarrow> m' = m"
proof (cases "rot s w 23 \<le> L \<or> L < rot s w 0")
  case True
  have inner: "\<not> (rot s w m' \<le> L \<and> L < rot s w (Suc m'))" if "m' < 23" for m'
  proof -
    have "rot s w 0 \<le> rot s w m'" and "rot s w (Suc m') \<le> rot s w 23"
      using that rot_mono [OF w asc] by simp_all
    then show ?thesis
      using True by linarith
  qed
  have "(if m' = 23 then rot s w 23 \<le> L \<or> L < rot s w 0
            else rot s w m' \<le> L \<and> L < rot s w (Suc m')) \<longleftrightarrow> m' = 23"
    if "m' < 24" for m'
  proof (cases "m' = 23")
    case True
    then show ?thesis
      using \<open>rot s w 23 \<le> L \<or> L < rot s w 0\<close> by simp
  next
    case False
    then have "m' < 23" using that by simp
    then show ?thesis
      using False inner by simp
  qed
  then show ?thesis
    by (intro exI [of _ 23]) simp
next
  case False
  then have "rot s w 0 \<le> L" and "L < rot s w 23"
    by simp_all
  then obtain m where m: "m < 23" and in_m: "rot s w m \<le> L" "L < rot s w (Suc m)"
    using crossing [of "rot s w" L 23] by blast
  have only: "m' = m"
    if m': "m' < 23" and in_m': "rot s w m' \<le> L" "L < rot s w (Suc m')" for m'
  proof (rule ccontr)
    assume "m' \<noteq> m"
    then consider "Suc m' \<le> m" | "Suc m \<le> m'"
      by linarith
    then show False
    proof cases
      case 1
      then have "rot s w (Suc m') \<le> rot s w m"
        using m rot_mono [OF w asc] by simp
      then show False
        using in_m in_m' by simp
    next
      case 2
      then have "rot s w (Suc m) \<le> rot s w m'"
        using m' rot_mono [OF w asc] by simp
      then show False
        using in_m in_m' by simp
    qed
  qed
  have "(if m' = 23 then rot s w 23 \<le> L \<or> L < rot s w 0
            else rot s w m' \<le> L \<and> L < rot s w (Suc m')) \<longleftrightarrow> m' = m"
    if "m' < 24" for m'
  proof (cases "m' = 23")
    case True
    then show ?thesis
      using False m by simp
  next
    case neq: False
    then have "m' < 23" using that by simp
    then show ?thesis
      using neq only [of m'] in_m by auto
  qed
  moreover have "m < 24"
    using m by simp
  ultimately show ?thesis
    by blast
qed

lemma cycle_unique:
  fixes s :: "nat \<Rightarrow> real"
  assumes w: "w < 24" and desc: "s ((w + 1) mod 24) < s w"
    and asc: "\<forall>j<24. j \<noteq> w \<longrightarrow> s j \<le> s ((j + 1) mod 24)"
  shows "\<exists>i<24. \<forall>j<24. in_range L (s j) (s ((j + 1) mod 24)) \<longleftrightarrow> j = i"
proof -
  obtain m where m: "m < 24"
    and only: "\<forall>m'<24.
           (if m' = 23 then rot s w 23 \<le> L \<or> L < rot s w 0
            else rot s w m' \<le> L \<and> L < rot s w (Suc m')) \<longleftrightarrow> m' = m"
    using rot_unique [OF assms] by blast
  define i where "i = (w + 1 + m) mod 24"
  have "in_range L (s j) (s ((j + 1) mod 24)) \<longleftrightarrow> j = i" if j: "j < 24" for j
  proof -
    define m' where "m' = (j + 23 - w) mod 24"
    have m': "m' < 24" and jm: "(w + 1 + m') mod 24 = j"
      using rot_index_onto [OF w j] by (simp_all add: m'_def)
    have "in_range L (s j) (s ((j + 1) mod 24)) \<longleftrightarrow> m' = m"
      using in_range_rot [OF assms m', of L] only m' unfolding jm by simp
    moreover have "m' = m \<longleftrightarrow> j = i"
    proof
      assume "m' = m"
      then show "j = i" using jm by (simp add: i_def)
    next
      assume "j = i"
      then have "(w + 1 + m') mod 24 = (w + 1 + m) mod 24"
        using jm by (simp add: i_def)
      then have "((w + 1 + m') mod 24 + 23 - w) mod 24 = ((w + 1 + m) mod 24 + 23 - w) mod 24"
        by simp
      then show "m' = m"
        using rot_index_inv [OF w m] rot_index_inv [OF w m'] by simp
    qed
    ultimately show ?thesis by simp
  qed
  moreover have "i < 24"
    by (simp add: i_def)
  ultimately show ?thesis by blast
qed

subsection \<open>Well-formed tables: one term is active, and the loop returns it\<close>

lemma filter_singleton:
  assumes "length (filter P xs) = 1"
  shows "\<exists>w\<in>set xs. P w \<and> (\<forall>j\<in>set xs. P j \<longrightarrow> j = w)"
proof -
  obtain w where w: "filter P xs = [w]"
    using assms by (cases "filter P xs") simp_all
  then have "w \<in> set (filter P xs)"
    by simp
  then have "w \<in> set xs" and "P w"
    by simp_all
  moreover have "j = w" if "j \<in> set xs" and "P j" for j
  proof -
    have "j \<in> set (filter P xs)"
      using that by simp
    then show ?thesis
      unfolding w by simp
  qed
  ultimately show ?thesis
    by blast
qed

lemma well_formed_wrap:
  assumes "well_formed data"
  shows "\<exists>w<24. wraps data w \<and> (\<forall>j<24. j \<noteq> w \<longrightarrow> \<not> wraps data j)"
proof -
  have mem: "j \<in> set [0..<24] \<longleftrightarrow> j < 24" for j :: nat
    by (simp only: set_upt atLeastLessThan_iff le0 simp_thms)
  have one: "length (filter (wraps data) [0..<24]) = 1"
    using assms unfolding well_formed_def by (elim conjE)
  obtain w where "w \<in> set [0..<24]" and w: "wraps data w"
    and only: "\<forall>j\<in>set [0..<24]. wraps data j \<longrightarrow> j = w"
    using filter_singleton [OF one] by (elim bexE conjE)
  then have "w < 24" and "\<forall>j<24. wraps data j \<longrightarrow> j = w"
    unfolding mem Ball_def by blast+
  then show ?thesis
    using w by blast
qed

lemma well_formed_length: "well_formed data \<Longrightarrow> length (sekki data) = 24"
  unfolding well_formed_def by blast

lemma well_formed_ko:
  assumes "well_formed data" and "i < 24"
  shows "length (sekki_ko (sekki data ! i)) = 3"
proof -
  have "length (sekki data) = 24"
    and "list_all (\<lambda>s. length (sekki_ko s) = 3) (sekki data)"
    using assms(1) unfolding well_formed_def by blast+
  then show ?thesis
    using assms(2) by (simp add: list_all_length)
qed

lemma well_formed_start:
  assumes "well_formed data" and "i < 24"
  shows "0 \<le> start_longitude data i \<and> start_longitude data i < 360"
proof -
  have "length (sekki data) = 24"
    and "list_all (\<lambda>s. 0 \<le> sekki_longitude s \<and> sekki_longitude s < 360) (sekki data)"
    using assms(1) unfolding well_formed_def by blast+
  then show ?thesis
    using assms(2) by (simp add: list_all_length start_longitude_def)
qed

lemma well_formed_unique:
  assumes "well_formed data"
  shows "\<exists>i<24. \<forall>j<24. term_active L data j \<longleftrightarrow> j = i"
proof -
  obtain w where w: "w < 24" and desc: "wraps data w"
    and asc: "\<forall>j<24. j \<noteq> w \<longrightarrow> \<not> wraps data j"
    using well_formed_wrap [OF assms] by blast
  have "start_longitude data ((w + 1) mod 24) < start_longitude data w"
    using desc by (simp add: wraps_def)
  moreover have "\<forall>j<24. j \<noteq> w \<longrightarrow>
      start_longitude data j \<le> start_longitude data ((j + 1) mod 24)"
    using asc by (simp add: wraps_def not_less)
  ultimately show ?thesis
    unfolding term_active_def by (rule cycle_unique [OF w])
qed

lemma well_formed_resolve:
  assumes wf: "well_formed data" and i: "i < 24" and act: "term_active L data i"
  shows "find_current_ko L data =
           find_ko_in_sekki L (sekki data ! i) (start_longitude data ((i + 1) mod 24))"
proof -
  obtain i0 where only: "\<forall>j<24. term_active L data j \<longleftrightarrow> j = i0"
    using well_formed_unique [OF wf] by blast
  have "i = i0"
    using only i act by blast
  then have "\<forall>j<i. \<not> term_active L data j"
    using only i by auto
  then show ?thesis
    using find_current_ko_first [OF well_formed_length [OF wf] i act] by simp
qed

subsection \<open>Span, offset and index within the active term\<close>

lemma active_span_offset:
  assumes "0 \<le> a" "a < 360" "0 \<le> b" "b < 360" "0 \<le> L" "in_range L a b"
  shows "0 < span_of a b \<and> 0 \<le> offset_of L a b"
  using assms by (auto simp add: in_range_def span_of_def offset_of_def split: if_splits)

lemma ko_index_of_nonneg:
  assumes "0 < W" and "0 \<le> off"
  shows "ko_index_of off W = Inr (min \<lfloor>fl (off / fl (W / 3))\<rfloor> 2)"
    and "0 \<le> min \<lfloor>fl (off / fl (W / 3))\<rfloor> 2"
proof -
  have k: "0 < fl (W / 3)"
    using assms(1) by (rule ko_span_bounds)
  then have "0 \<le> off / fl (W / 3)"
    using assms(2) by simp
  then have "0 \<le> fl (off / fl (W / 3))"
    by (rule fl_nonneg)
  then show "ko_index_of off W = Inr (min \<lfloor>fl (off / fl (W / 3))\<rfloor> 2)"
    and "0 \<le> min \<lfloor>fl (off / fl (W / 3))\<rfloor> 2"
    using k by (simp_all add: ko_index_of_def py_int_def Let_def)
qed

lemma find_ko_in_sekki_nonneg:
  assumes "0 < span_of (sekki_longitude s) b" and "0 \<le> offset_of L (sekki_longitude s) b"
    and "length (sekki_ko s) = 3"
  shows "find_ko_in_sekki L s b =
           Inr (s, sekki_ko s ! nat (min \<lfloor>fl (offset_of L (sekki_longitude s) b
                                          / fl (span_of (sekki_longitude s) b / 3))\<rfloor> 2),
                min \<lfloor>fl (offset_of L (sekki_longitude s) b
                          / fl (span_of (sekki_longitude s) b / 3))\<rfloor> 2)"
proof -
  let ?n = "min \<lfloor>fl (offset_of L (sekki_longitude s) b
                       / fl (span_of (sekki_longitude s) b / 3))\<rfloor> 2"
  have idx: "ko_index_of (offset_of L (sekki_longitude s) b) (span_of (sekki_longitude s) b) = Inr ?n"
    and lo: "0 \<le> ?n"
    using ko_index_of_nonneg [OF assms(1,2)] by simp_all
  have "?n < int (length (sekki_ko s))"
    using assms(3) by simp
  with lo have "py_index (sekki_ko s) ?n = Inr (sekki_ko s ! nat ?n)"
    by (rule py_index_range)
  then show ?thesis
    using idx by (simp add: find_ko_in_sekki_def Let_def)
qed

lemma well_formed_result:
  assumes wf: "well_formed data" and i: "i < 24" and act: "term_active L data i" and L: "0 \<le> L"
  shows "\<exists>n. 0 \<le> n \<and> n \<le> 2 \<and>
           find_current_ko L data = Inr (sekki data ! i, sekki_ko (sekki data ! i) ! nat n, n)"
proof -
  let ?a = "start_longitude data i" and ?b = "start_longitude data ((i + 1) mod 24)"
  have "(i + 1) mod 24 < 24"
    by simp
  then have b: "0 \<le> ?b \<and> ?b < 360"
    using well_formed_start [OF wf] by blast
  have a: "0 \<le> ?a \<and> ?a < 360"
    using well_formed_start [OF wf i] .
  have "in_range L ?a ?b"
    using act by (simp add: term_active_def)
  then have so: "0 < span_of ?a ?b \<and> 0 \<le> offset_of L ?a ?b"
    using a b L by (intro active_span_offset) simp_all
  let ?n = "min \<lfloor>fl (offset_of L ?a ?b / fl (span_of ?a ?b / 3))\<rfloor> 2"
  have "find_ko_in_sekki L (sekki data ! i) ?b =
      Inr (sekki data ! i, sekki_ko (sekki data ! i) ! nat ?n, ?n)"
    using so well_formed_ko [OF wf i]
      find_ko_in_sekki_nonneg [of "sekki data ! i" ?b L]
    by (simp add: start_longitude_def)
  moreover have "0 \<le> ?n"
    using so ko_index_of_nonneg(2) by blast
  moreover have "?n \<le> 2"
    by simp
  ultimately show ?thesis
    using well_formed_resolve [OF wf i act] by auto
qed


lemma whole_span_index:
  fixes W :: real
  assumes "0 < W"
  shows "min \<lfloor>fl (W / fl (W / 3))\<rfloor> 2 = (2::int)"
proof -
  have "2 \<le> fl (W / fl (W / 3))"
    using ko_span_bounds(1,3) [OF assms] by (rule fl_quotient_ge_2)
  then have "2 \<le> \<lfloor>fl (W / fl (W / 3))\<rfloor>"
    by (simp add: le_floor_iff)
  then show ?thesis
    by simp
qed

lemma find_ko_in_sekki_below:
  assumes W: "0 < span_of (sekki_longitude s) b"
    and off: "offset_of L (sekki_longitude s) b \<le> - 2 * span_of (sekki_longitude s) b"
    and len: "length (sekki_ko s) = 3"
  shows "find_ko_in_sekki L s b = Inl IndexError"
proof -
  define k where "k = fl (span_of (sekki_longitude s) b / 3)"
  define q where "q = fl (offset_of L (sekki_longitude s) b / k)"
  have k: "0 < k" and k2: "2 * k \<le> span_of (sekki_longitude s) b"
    using ko_span_bounds(1,3) [OF W] by (simp_all add: k_def)
  have "offset_of L (sekki_longitude s) b \<le> - 4 * k"
    using off k2 by linarith
  then have "offset_of L (sekki_longitude s) b / k \<le> - (2 powi 2)"
    using k by (simp add: pos_divide_le_eq)
  then have "q \<le> - (2 powi 2)"
    unfolding q_def by (rule fl_le_neg_pow)
  then have x: "q \<le> - 4"
    by simp
  then have "\<lceil>q\<rceil> \<le> - 4"
    by (simp add: ceiling_le_iff)
  moreover have "\<not> 0 \<le> q"
    using x by linarith
  ultimately have "py_int q \<le> - 4"
    by (simp add: py_int_def)
  then have "min (py_int q) 2 < - int (length (sekki_ko s))"
    using len by simp
  then have "py_index (sekki_ko s) (min (py_int q) 2) = Inl IndexError"
    by (rule py_index_below)
  then show ?thesis
    using k by (simp add: find_ko_in_sekki_def ko_index_of_def Let_def q_def k_def)
qed

subsection \<open>The example inputs, evaluated\<close>

lemmas table_defs =
  regular_table_def shifted_table_def repeated_start_table_def constant_table_def short_table_def
  mk_table_def mk_sekki_def mk_ko_def enumerate_list_def

lemmas resolve_defs =
  find_current_ko_def in_range_def find_ko_in_sekki_def span_of_def offset_of_def
  ko_index_of_def py_int_def py_index_def fallback_def
  fl_0 fl_1 fl_numeral fl_neg_numeral fl_1_3 fl_12_5 fl_1_6

lemma upt_24:
  "[0..<24] = [0, 1, 2, 3, 4, 5, 6, 7, 8, 9, 10, 11, 12, 13, 14, 15, 16, 17, 18, 19, 20, 21, 22, 23]"
  by (simp add: upt_rec)

lemma replicate_24:
  "replicate 24 x = [x, x, x, x, x, x, x, x, x, x, x, x, x, x, x, x, x, x, x, x, x, x, x, x]"
  by (simp add: eval_nat_numeral)

lemma regular_table_well_formed: "well_formed regular_table"
  by (simp add: well_formed_def wraps_def start_longitude_def table_defs upt_24)

lemma repeated_start_table_well_formed: "well_formed repeated_start_table"
  by (simp add: well_formed_def wraps_def start_longitude_def table_defs upt_24)

lemma shifted_table_well_formed: "well_formed shifted_table"
  by (simp add: well_formed_def wraps_def start_longitude_def table_defs upt_24)

lemma shifted_table_wraps: "wraps shifted_table 2"
  by (simp add: wraps_def start_longitude_def table_defs)

lemma shifted_table_terms:
  "sekki shifted_table ! 2 = mk_sekki 2 350"
  "start_longitude shifted_table 2 = 350" "start_longitude shifted_table 3 = 5"
  by (simp_all add: start_longitude_def table_defs)

lemma shifted_table_2:
  "find_current_ko 2 shifted_table = Inr (mk_sekki 2 350, mk_ko 2 2, 2)"
  by (simp add: resolve_defs table_defs)

lemma regular_table_wraps: "wraps regular_table 2"
  by (simp add: wraps_def start_longitude_def table_defs)

lemma repeated_start_table_wraps: "wraps repeated_start_table 2"
  by (simp add: wraps_def start_longitude_def table_defs)

lemma regular_table_320:
  "find_current_ko 320 regular_table = Inr (mk_sekki 0 315, mk_ko 0 1, 1)"
  by (simp add: resolve_defs table_defs)

lemma regular_table_320_active: "active_terms 320 regular_table = [0]"
  by (simp add: active_terms_def term_active_def in_range_def start_longitude_def table_defs upt_24)

lemma regular_table_350:
  "find_current_ko 350 regular_table = Inr (mk_sekki 2 345, mk_ko 2 1, 1)"
  by (simp add: resolve_defs table_defs)

lemma regular_table_360:
  "find_current_ko 360 regular_table = Inr (mk_sekki 2 345, mk_ko 2 2, 2)"
  by (simp add: resolve_defs table_defs)

lemma regular_table_0:
  "find_current_ko 0 regular_table = Inr (mk_sekki 3 0, mk_ko 3 0, 0)"
  by (simp add: resolve_defs table_defs)

lemma regular_table_15:
  "find_current_ko 15 regular_table = Inr (mk_sekki 4 15, mk_ko 4 0, 0)"
  by (simp add: resolve_defs table_defs)

lemma regular_table_minus_30:
  "find_current_ko (- 30) regular_table = Inr (mk_sekki 2 345, mk_ko 2 0, - 3)"
  by (simp add: resolve_defs table_defs)

lemma regular_table_minus_35:
  "find_current_ko (- 35) regular_table = Inl IndexError"
  by (simp add: resolve_defs table_defs)

lemma repeated_start_table_0:
  "find_current_ko 0 repeated_start_table = Inr (mk_sekki 4 0, mk_ko 4 0, 0)"
  by (simp add: resolve_defs table_defs)

lemma repeated_start_table_terms:
  "sekki repeated_start_table ! 3 = mk_sekki 3 0" "sekki repeated_start_table ! 4 = mk_sekki 4 0"
  "start_longitude repeated_start_table 3 = 0" "start_longitude repeated_start_table 4 = 0"
  "start_longitude repeated_start_table 5 = 30"
  by (simp_all add: start_longitude_def table_defs)

lemma regular_table_terms:
  "sekki regular_table ! 0 = mk_sekki 0 315" "sekki regular_table ! 2 = mk_sekki 2 345"
  "sekki regular_table ! 3 = mk_sekki 3 0" "sekki regular_table ! 4 = mk_sekki 4 15"
  "start_longitude regular_table 2 = 345" "start_longitude regular_table 3 = 0"
  "start_longitude regular_table 4 = 15" "start_longitude regular_table 5 = 30"
  by (simp_all add: start_longitude_def table_defs)

lemma constant_table_active: "active_terms 10 constant_table = []"
  by (simp add: active_terms_def term_active_def in_range_def start_longitude_def table_defs
      upt_24 replicate_24)

lemma constant_table_10:
  "find_current_ko 10 constant_table = Inr (mk_sekki 0 0, mk_ko 0 0, 0)"
  by (simp add: resolve_defs table_defs replicate_24)

lemma constant_table_first:
  "sekki constant_table ! 0 = mk_sekki 0 0" "sekki_ko (mk_sekki 0 0) ! 0 = mk_ko 0 0"
  by (simp_all add: table_defs replicate_24)

lemma constant_table_length: "length (sekki constant_table) = 24"
  by (simp add: table_defs)

lemma short_table_10:
  "find_current_ko 10 short_table = Inr (sekki short_table ! 0, mk_ko 0 0, 0)"
  by (simp add: resolve_defs table_defs)

lemma short_table_shape:
  "length (sekki short_table) = 2" "length (sekki_ko (sekki short_table ! 0)) = 4"
  by (simp_all add: table_defs)

lemma active_terms_empty: "active_terms L data = [] \<longleftrightarrow> (\<forall>j<24. \<not> term_active L data j)"
  by (auto simp add: active_terms_def filter_empty_conv)

section \<open>The claims\<close>

text \<open>
  C1. For every longitude in \<open>[0, 360)\<close> and every well-formed table, exactly one of the 24
  range conditions holds, and \<^verbatim>\<open>find_current_ko\<close> returns that term, one of its three
  micro-seasons, and the position of that micro-season in the term.
\<close>

theorem find_current_ko_selects_one_term:
  assumes "well_formed data" and "0 \<le> L" and "L < 360"
  shows "\<exists>i<24. (\<forall>j<24. term_active L data j \<longleftrightarrow> j = i) \<and>
           (\<exists>n. 0 \<le> n \<and> n \<le> 2 \<and>
              find_current_ko L data = Inr (sekki data ! i, sekki_ko (sekki data ! i) ! nat n, n))"
proof -
  obtain i where i: "i < 24" and only: "\<forall>j<24. term_active L data j \<longleftrightarrow> j = i"
    using well_formed_unique [OF assms(1)] by blast
  then have "term_active L data i"
    by simp
  then have "\<exists>n. 0 \<le> n \<and> n \<le> 2 \<and>
      find_current_ko L data = Inr (sekki data ! i, sekki_ko (sekki data ! i) ! nat n, n)"
    using well_formed_result [OF assms(1) i _ assms(2)] by simp
  then show ?thesis
    using i only by blast
qed

theorem find_current_ko_selects_one_term_witness:
  "well_formed regular_table \<and> (0::real) \<le> 320 \<and> (320::real) < 360
   \<and> active_terms 320 regular_table = [0]
   \<and> find_current_ko 320 regular_table = Inr (sekki regular_table ! 0, mk_ko 0 1, 1)"
  using find_current_ko_selects_one_term [OF regular_table_well_formed, of 320]
  by (simp add: regular_table_well_formed regular_table_320 regular_table_320_active
      regular_table_terms)

text \<open>
  C2, as the code has it. When none of the 24 range conditions holds, \<^verbatim>\<open>find_current_ko\<close>
  raises no error of its own: it returns the first term of the table with its first
  micro-season and index 0 (IndexError only if that term has no micro-season).
\<close>

theorem find_current_ko_no_match_fallback:
  assumes "length (sekki data) = 24" and "\<forall>j<24. \<not> term_active L data j"
  shows "find_current_ko L data =
           (if sekki_ko (sekki data ! 0) = [] then Inl IndexError
            else Inr (sekki data ! 0, sekki_ko (sekki data ! 0) ! 0, 0))"
proof -
  have "py_index (sekki data) 0 = Inr (sekki data ! 0)"
    using assms(1) by (simp add: py_index_def)
  moreover have "py_index (sekki_ko (sekki data ! 0)) 0 =
      (if sekki_ko (sekki data ! 0) = [] then Inl IndexError
       else Inr (sekki_ko (sekki data ! 0) ! 0))"
    by (simp add: py_index_def)
  ultimately show ?thesis
    using find_current_ko_none [OF assms] by (simp add: fallback_def)
qed

theorem find_current_ko_no_match_fallback_witness:
  "length (sekki constant_table) = 24 \<and> active_terms 10 constant_table = []
   \<and> find_current_ko 10 constant_table = Inr (mk_sekki 0 0, mk_ko 0 0, 0)"
proof -
  have none: "\<forall>j<24. \<not> term_active 10 constant_table j"
    using constant_table_active by (simp only: active_terms_empty)
  from find_current_ko_no_match_fallback [OF constant_table_length none]
  show ?thesis
    by (simp add: constant_table_length constant_table_active constant_table_10)
qed

theorem no_match_returns_first_term_counterexample:
  "active_terms 10 constant_table = []
   \<and> find_current_ko 10 constant_table =
       Inr (sekki constant_table ! 0, sekki_ko (sekki constant_table ! 0) ! 0, 0)"
  by (simp add: constant_table_active constant_table_10 constant_table_first)

text \<open>
  C3, as the code has it. \<^verbatim>\<open>load_sekki_data\<close> fails only when the file is missing or is not
  JSON; it checks nothing about the document, which it returns as parsed, and \<^verbatim>\<open>main\<close>
  passes whatever was loaded to \<^verbatim>\<open>find_current_ko\<close>.
\<close>

theorem load_sekki_data_no_validation:
  "load_sekki_data Missing = Inl FileNotFoundError
   \<and> load_sekki_data Unparsable = Inl JSONDecodeError
   \<and> load_sekki_data (Document d) = Inr d
   \<and> main_resolve (Document d) L = find_current_ko L d"
  by (simp add: load_sekki_data_def main_resolve_def)

theorem short_table_loads_counterexample:
  "length (sekki short_table) = 2
   \<and> length (sekki_ko (sekki short_table ! 0)) = 4
   \<and> load_sekki_data (Document short_table) = Inr short_table
   \<and> main_resolve (Document short_table) 10 = Inr (sekki short_table ! 0, mk_ko 0 0, 0)"
  by (simp add: short_table_shape short_table_10 load_sekki_data_def main_resolve_def)

text \<open>
  C4. In a well-formed table with the wrapping term at index \<open>i\<close>, every longitude in
  \<open>[start i, 360)\<close> and every longitude in \<open>[0, start ((i + 1) mod 24))\<close> resolves to term
  \<open>i\<close>, and the offset within the term, \<open>longitude - start\<close> from the start on and
  \<open>(360 - start) + longitude\<close> below it, is not negative.
\<close>

theorem wraparound_resolves_to_wrapping_term:
  assumes wf: "well_formed data" and i: "i < 24" and wr: "wraps data i"
    and L: "(start_longitude data i \<le> L \<and> L < 360)
            \<or> (0 \<le> L \<and> L < start_longitude data ((i + 1) mod 24))"
  shows "term_active L data i
         \<and> offset_of L (start_longitude data i) (start_longitude data ((i + 1) mod 24)) =
             (if start_longitude data i \<le> L then L - start_longitude data i
              else (360 - start_longitude data i) + L)
         \<and> 0 \<le> offset_of L (start_longitude data i) (start_longitude data ((i + 1) mod 24))
         \<and> (\<exists>n. 0 \<le> n \<and> n \<le> 2 \<and>
               find_current_ko L data =
                 Inr (sekki data ! i, sekki_ko (sekki data ! i) ! nat n, n))"
proof -
  let ?a = "start_longitude data i" and ?b = "start_longitude data ((i + 1) mod 24)"
  have ab: "?b < ?a"
    using wr by (simp add: wraps_def)
  have a: "0 \<le> ?a \<and> ?a < 360"
    using well_formed_start [OF wf i] .
  have "(i + 1) mod 24 < 24"
    by simp
  then have b: "0 \<le> ?b \<and> ?b < 360"
    using well_formed_start [OF wf] by blast
  have L0: "0 \<le> L"
    using L a by linarith
  have act: "term_active L data i"
    using L ab by (auto simp add: term_active_def in_range_def)
  then have "in_range L ?a ?b"
    by (simp add: term_active_def)
  then have "0 \<le> offset_of L ?a ?b"
    using active_span_offset [of ?a ?b L] a b L0 by simp
  moreover have "offset_of L ?a ?b = (if ?a \<le> L then L - ?a else (360 - ?a) + L)"
    using ab by (simp add: offset_of_def)
  ultimately show ?thesis
    using act well_formed_result [OF wf i act L0] by simp
qed

theorem wraparound_resolves_to_wrapping_term_witness:
  "well_formed regular_table \<and> wraps regular_table 2
   \<and> start_longitude regular_table 2 \<le> 350 \<and> (350::real) < 360
   \<and> offset_of 350 345 0 = 5
   \<and> find_current_ko 350 regular_table = Inr (sekki regular_table ! 2, mk_ko 2 1, 1)
   \<and> well_formed shifted_table \<and> wraps shifted_table 2
   \<and> (0::real) \<le> 2 \<and> 2 < start_longitude shifted_table 3
   \<and> offset_of 2 350 5 = 12
   \<and> find_current_ko 2 shifted_table = Inr (sekki shifted_table ! 2, mk_ko 2 2, 2)"
  using wraparound_resolves_to_wrapping_term
    [OF regular_table_well_formed _ regular_table_wraps, of 350]
    wraparound_resolves_to_wrapping_term
    [OF shifted_table_well_formed _ shifted_table_wraps, of 2]
  by (simp add: regular_table_well_formed regular_table_wraps regular_table_350
      regular_table_terms shifted_table_well_formed shifted_table_wraps shifted_table_2
      shifted_table_terms offset_of_def)

text \<open>
  C5, as the code has it. At a longitude equal to the start of term \<open>i\<close> of a well-formed
  table, the range condition of the preceding term does not hold, and term \<open>i\<close> is returned,
  with micro-season index 0, whenever the next term starts at another longitude. (A term that
  starts where the next one starts has an empty range.)
\<close>

theorem start_longitude_selects_term:
  assumes wf: "well_formed data" and i: "i < 24"
  shows "\<not> term_active (start_longitude data i) data ((i + 23) mod 24)
         \<and> (start_longitude data i \<noteq> start_longitude data ((i + 1) mod 24) \<longrightarrow>
               term_active (start_longitude data i) data i
               \<and> find_current_ko (start_longitude data i) data =
                   Inr (sekki data ! i, sekki_ko (sekki data ! i) ! 0, 0))"
proof (intro conjI impI)
  have "((i + 23) mod 24 + 1) mod 24 = i"
    using i by (simp add: mod24)
  then show "\<not> term_active (start_longitude data i) data ((i + 23) mod 24)"
    by (simp add: term_active_def in_range_def)
next
  let ?a = "start_longitude data i" and ?b = "start_longitude data ((i + 1) mod 24)"
  assume ne: "?a \<noteq> ?b"
  then show act: "term_active ?a data i"
    by (auto simp add: term_active_def in_range_def)
  have a: "0 \<le> ?a \<and> ?a < 360"
    using well_formed_start [OF wf i] .
  have "(i + 1) mod 24 < 24"
    by simp
  then have b: "0 \<le> ?b \<and> ?b < 360"
    using well_formed_start [OF wf] by blast
  have "in_range ?a ?a ?b"
    using act by (simp add: term_active_def)
  then have W: "0 < span_of ?a ?b"
    using active_span_offset [of ?a ?b ?a] a b by simp
  have off: "offset_of ?a ?a ?b = 0"
    by (simp add: offset_of_def)
  have "find_ko_in_sekki ?a (sekki data ! i) ?b =
      Inr (sekki data ! i, sekki_ko (sekki data ! i) ! 0, 0)"
    using find_ko_in_sekki_nonneg [of "sekki data ! i" ?b ?a] W off well_formed_ko [OF wf i]
    by (simp add: start_longitude_def fl_0)
  then show "find_current_ko ?a data = Inr (sekki data ! i, sekki_ko (sekki data ! i) ! 0, 0)"
    using well_formed_resolve [OF wf i act] by simp
qed

theorem start_longitude_selects_term_witness:
  "well_formed regular_table \<and> start_longitude regular_table 4 = 15
   \<and> start_longitude regular_table 4 \<noteq> start_longitude regular_table 5
   \<and> find_current_ko 15 regular_table = Inr (sekki regular_table ! 4, mk_ko 4 0, 0)"
  using start_longitude_selects_term [OF regular_table_well_formed, of 4]
  by (simp add: regular_table_well_formed regular_table_terms regular_table_15)

theorem empty_term_not_selected_counterexample:
  "well_formed repeated_start_table
   \<and> start_longitude repeated_start_table 3 = 0
   \<and> find_current_ko 0 repeated_start_table = Inr (sekki repeated_start_table ! 4, mk_ko 4 0, 0)
   \<and> sekki repeated_start_table ! 4 \<noteq> sekki repeated_start_table ! 3"
  by (simp add: repeated_start_table_well_formed repeated_start_table_terms
      repeated_start_table_0 mk_sekki_def)




text \<open>
  C7, as the code has it. \<^verbatim>\<open>find_current_ko\<close> does not reduce its argument modulo 360. In a
  well-formed table whose wrapping term \<open>i\<close> is followed by a term that starts at 0, the
  longitude 360 is resolved to term \<open>i\<close>, at an offset equal to the whole span and with the
  index cut to 2, while the longitude 0 is resolved to another term with index 0: the term
  after \<open>i\<close> when that term and the one after it start at different longitudes. So the results
  at 360 and at \<open>mod_360 360\<close> differ.
\<close>

theorem no_normalization_at_360:
  assumes wf: "well_formed data" and i: "i < 24" and wr: "wraps data i"
    and z: "start_longitude data ((i + 1) mod 24) = 0"
  shows "offset_of 360 (start_longitude data i) 0 = span_of (start_longitude data i) 0
         \<and> find_current_ko 360 data = Inr (sekki data ! i, sekki_ko (sekki data ! i) ! 2, 2)
         \<and> (\<exists>j<24. j \<noteq> i
               \<and> find_current_ko 0 data = Inr (sekki data ! j, sekki_ko (sekki data ! j) ! 0, 0))
         \<and> (start_longitude data ((i + 2) mod 24) \<noteq> 0 \<longrightarrow>
               find_current_ko 0 data =
                 Inr (sekki data ! ((i + 1) mod 24), sekki_ko (sekki data ! ((i + 1) mod 24)) ! 0, 0))
         \<and> find_current_ko 360 data \<noteq> find_current_ko (mod_360 360) data"
proof -
  let ?a = "start_longitude data i"
  have a: "0 \<le> ?a \<and> ?a < 360"
    using well_formed_start [OF wf i] .
  have a0: "0 < ?a"
    using wr z by (simp add: wraps_def)
  have W: "span_of ?a 0 = 360 - ?a" and off: "offset_of 360 ?a 0 = 360 - ?a"
    using a a0 by (simp_all add: span_of_def offset_of_def)
  have act360: "term_active 360 data i"
    using a a0 z by (simp add: term_active_def in_range_def)
  have "min \<lfloor>fl ((360 - ?a) / fl ((360 - ?a) / 3))\<rfloor> 2 = (2::int)"
    using a by (intro whole_span_index) simp
  then have "find_ko_in_sekki 360 (sekki data ! i) 0 =
      Inr (sekki data ! i, sekki_ko (sekki data ! i) ! 2, 2)"
    using find_ko_in_sekki_nonneg [of "sekki data ! i" 0 360] W off a well_formed_ko [OF wf i]
    by (simp add: start_longitude_def)
  then have r360: "find_current_ko 360 data =
      Inr (sekki data ! i, sekki_ko (sekki data ! i) ! 2, 2)"
    using well_formed_resolve [OF wf i act360] z by simp
  have at0: "find_current_ko 0 data = Inr (sekki data ! j, sekki_ko (sekki data ! j) ! 0, 0)"
    if j: "j < 24" and act: "term_active 0 data j" and nw: "\<not> wraps data j" for j
  proof -
    let ?c = "start_longitude data j" and ?d = "start_longitude data ((j + 1) mod 24)"
    have c: "0 \<le> ?c \<and> ?c < 360"
      using well_formed_start [OF wf j] .
    have "(j + 1) mod 24 < 24"
      by simp
    then have d: "0 \<le> ?d \<and> ?d < 360"
      using well_formed_start [OF wf] by blast
    have r: "in_range 0 ?c ?d"
      using act by (simp add: term_active_def)
    then have Wj: "0 < span_of ?c ?d"
      using active_span_offset [of ?c ?d 0] c d by simp
    have "offset_of 0 ?c ?d = 0"
      using r c nw by (auto simp add: in_range_def offset_of_def wraps_def split: if_splits)
    then have "find_ko_in_sekki 0 (sekki data ! j) ?d =
        Inr (sekki data ! j, sekki_ko (sekki data ! j) ! 0, 0)"
      using find_ko_in_sekki_nonneg [of "sekki data ! j" ?d 0] Wj well_formed_ko [OF wf j]
      by (simp add: start_longitude_def fl_0)
    then show ?thesis
      using well_formed_resolve [OF wf j act] by simp
  qed
  have not_i: "\<not> term_active 0 data i"
    using a0 z by (simp add: term_active_def in_range_def)
  obtain j where j: "j < 24" and actj: "term_active 0 data j"
    using well_formed_unique [OF wf, of 0] by blast
  have ji: "j \<noteq> i"
    using actj not_i by blast
  obtain w where "w < 24" and "wraps data w" and "\<forall>k<24. k \<noteq> w \<longrightarrow> \<not> wraps data k"
    using well_formed_wrap [OF wf] by blast
  then have "\<not> wraps data j"
    using i wr j ji by metis
  then have other: "\<exists>j<24. j \<noteq> i
      \<and> find_current_ko 0 data = Inr (sekki data ! j, sekki_ko (sekki data ! j) ! 0, 0)"
    using j ji at0 [OF j actj] by blast
  have following: "find_current_ko 0 data =
      Inr (sekki data ! ((i + 1) mod 24), sekki_ko (sekki data ! ((i + 1) mod 24)) ! 0, 0)"
    if nz: "start_longitude data ((i + 2) mod 24) \<noteq> 0"
  proof -
    have idx: "((i + 1) mod 24 + 1) mod 24 = (i + 2) mod 24"
      by (simp add: mod_Suc_eq)
    have "(i + 2) mod 24 < 24"
      by simp
    then have nn: "0 \<le> start_longitude data ((i + 2) mod 24)"
      using well_formed_start [OF wf] by blast
    then have "term_active 0 data ((i + 1) mod 24)"
      using nz z by (simp add: term_active_def in_range_def idx del: One_nat_def)
    moreover have "\<not> wraps data ((i + 1) mod 24)"
      using nn z by (simp add: wraps_def idx del: One_nat_def)
    ultimately show ?thesis
      using at0 [of "(i + 1) mod 24"] by simp
  qed
  have "mod_360 360 = 0"
    by (simp add: mod_360_def)
  then have "find_current_ko 360 data \<noteq> find_current_ko (mod_360 360) data"
    using r360 other by auto
  then show ?thesis
    using W off r360 other following by simp
qed

theorem no_normalization_at_360_witness:
  "well_formed regular_table \<and> wraps regular_table 2 \<and> start_longitude regular_table 3 = 0
   \<and> find_current_ko 360 regular_table = Inr (sekki regular_table ! 2, mk_ko 2 2, 2)
   \<and> find_current_ko 0 regular_table = Inr (sekki regular_table ! 3, mk_ko 3 0, 0)
   \<and> find_current_ko 360 regular_table \<noteq> find_current_ko (mod_360 360) regular_table"
  using no_normalization_at_360 [OF regular_table_well_formed _ regular_table_wraps]
  by (simp add: regular_table_well_formed regular_table_wraps regular_table_terms
      regular_table_360 regular_table_0 mod_360_def)

theorem following_term_not_returned_counterexample:
  "well_formed repeated_start_table \<and> wraps repeated_start_table 2
   \<and> start_longitude repeated_start_table 3 = 0
   \<and> find_current_ko 0 repeated_start_table = Inr (sekki repeated_start_table ! 4, mk_ko 4 0, 0)
   \<and> sekki repeated_start_table ! 4 \<noteq> sekki repeated_start_table ! 3"
  by (simp add: repeated_start_table_well_formed repeated_start_table_wraps
      repeated_start_table_terms repeated_start_table_0 mk_sekki_def)

text \<open>
  C8. In a well-formed table, every longitude \<open>L \<ge> 0\<close> is resolved with an index in
  \<open>{0, 1, 2}\<close>, so the access to the list of micro-seasons is in bounds. Below 0 this fails
  for some longitude: \<open>- 1800\<close> matches the wrapping term through \<^verbatim>\<open>longitude < next_lon\<close>, at
  an offset of at most \<open>- 2 * span\<close>; the index is below \<open>- 3\<close> and the access raises IndexError.
\<close>

theorem index_in_bounds_iff_nonnegative:
  assumes wf: "well_formed data"
  shows "(\<forall>L\<ge>0. \<exists>i<24. \<exists>n. 0 \<le> n \<and> n \<le> 2 \<and>
            find_current_ko L data = Inr (sekki data ! i, sekki_ko (sekki data ! i) ! nat n, n))
         \<and> find_current_ko (- 1800) data = Inl IndexError
         \<and> (\<exists>L<0. find_current_ko L data = Inl IndexError)"
proof -
  have nonneg: "\<exists>i<24. \<exists>n. 0 \<le> n \<and> n \<le> 2 \<and>
      find_current_ko L data = Inr (sekki data ! i, sekki_ko (sekki data ! i) ! nat n, n)"
    if "0 \<le> L" for L
  proof -
    obtain i where i: "i < 24" and act: "term_active L data i"
      using well_formed_unique [OF wf, of L] by blast
    then show ?thesis
      using well_formed_result [OF wf i act that] by blast
  qed
  have below: "find_current_ko L data = Inl IndexError" if L: "L \<le> - 1800" for L
  proof -
    obtain w where w: "w < 24" and wr: "wraps data w"
      using well_formed_wrap [OF wf] by blast
    let ?a = "start_longitude data w" and ?b = "start_longitude data ((w + 1) mod 24)"
    have ab: "?b < ?a"
      using wr by (simp add: wraps_def)
    have a: "0 \<le> ?a \<and> ?a < 360"
      using well_formed_start [OF wf w] .
    have "(w + 1) mod 24 < 24"
      by simp
    then have b: "0 \<le> ?b \<and> ?b < 360"
      using well_formed_start [OF wf] by blast
    have Lb: "L < ?b"
      using L b by linarith
    have act: "term_active L data w"
      using ab Lb by (simp add: term_active_def in_range_def)
    have W: "0 < span_of ?a ?b" and W': "span_of ?a ?b = (360 - ?a) + ?b"
      using ab a b by (simp_all add: span_of_def)
    have a0: "0 \<le> ?a" and b360: "?b < 360"
      using a b by simp_all
    have "offset_of L ?a ?b = (360 - ?a) + L"
      using ab Lb by (simp add: offset_of_def)
    also have "\<dots> \<le> - 1440"
      using L a0 by simp
    also have "\<dots> \<le> - 2 * ((360 - ?a) + ?b)"
      using a0 b360 by simp
    finally have "offset_of L ?a ?b \<le> - 2 * span_of ?a ?b"
      unfolding W' .
    then have "find_ko_in_sekki L (sekki data ! w) ?b = Inl IndexError"
      using find_ko_in_sekki_below [of "sekki data ! w" ?b L] W well_formed_ko [OF wf w]
      by (simp add: start_longitude_def)
    then show ?thesis
      using well_formed_resolve [OF wf w act] by simp
  qed
  have at: "find_current_ko (- 1800) data = Inl IndexError"
    by (rule below) simp
  then have "\<exists>L<0. find_current_ko L data = Inl IndexError"
    by (intro exI [of _ "- 1800"]) simp
  then show ?thesis
    using nonneg at by blast
qed

theorem index_in_bounds_iff_nonnegative_witness:
  "well_formed regular_table
   \<and> find_current_ko 360 regular_table = Inr (sekki regular_table ! 2, mk_ko 2 2, 2)
   \<and> find_current_ko (- 30) regular_table = Inr (sekki regular_table ! 2, mk_ko 2 0, - 3)
   \<and> find_current_ko (- 35) regular_table = Inl IndexError
   \<and> find_current_ko (- 1800) regular_table = Inl IndexError"
  using index_in_bounds_iff_nonnegative [OF regular_table_well_formed]
  by (simp add: regular_table_well_formed regular_table_terms
      regular_table_360 regular_table_minus_30 regular_table_minus_35)

text \<open>
  C9. For an index in \<open>{0, 1, 2}\<close>, \<^verbatim>\<open>format_message\<close> returns a string that contains the date
  as formatted by \<^verbatim>\<open>strftime\<close>, the name of the term, the name, the reading and the emoji of
  the micro-season, and the label of the position: element \<open>ko_index\<close> of \<^verbatim>\<open>ko_names\<close>.
\<close>

theorem format_message_contains:
  assumes "0 \<le> ko_index" and "ko_index \<le> 2"
  shows "\<exists>msg. format_message strftime date s k ko_index = Inr msg
           \<and> sublist (strftime date ''%Y/%m/%d'') msg
           \<and> sublist (sekki_name s) msg
           \<and> sublist (ko_name k) msg
           \<and> sublist (ko_reading k) msg
           \<and> sublist (ko_emoji k) msg
           \<and> sublist (ko_names ! nat ko_index) msg"
proof -
  define label where "label = ko_names ! nat ko_index"
  define msg where "msg = ascii ''*'' @ strftime date ''%Y/%m/%d'' @ ascii '' dev-daily* ''
      @ ko_emoji k @ [0x0A] @ ascii ''> '' @ sekki_name s @ [0x30FB] @ label
      @ [0x300C] @ ko_name k @ [0x300D] @ [0xFF08] @ ko_reading k @ [0xFF09]"
  have "ko_index < int (length ko_names)"
    using assms(2) by (simp add: ko_names_def)
  with assms(1) have "py_index ko_names ko_index = Inr label"
    unfolding label_def by (rule py_index_range)
  then have "format_message strftime date s k ko_index = Inr msg"
    by (simp add: format_message_def msg_def Let_def)
  moreover have "sublist (strftime date ''%Y/%m/%d'') msg"
    unfolding sublist_def msg_def
    by (intro exI [of _ "ascii ''*''"] exI [of _ "ascii '' dev-daily* '' @ ko_emoji k @ [0x0A]
          @ ascii ''> '' @ sekki_name s @ [0x30FB] @ label
          @ [0x300C] @ ko_name k @ [0x300D] @ [0xFF08] @ ko_reading k @ [0xFF09]"]) simp
  moreover have "sublist (ko_emoji k) msg"
    unfolding sublist_def msg_def
    by (intro exI [of _ "ascii ''*'' @ strftime date ''%Y/%m/%d'' @ ascii '' dev-daily* ''"]
          exI [of _ "[0x0A] @ ascii ''> '' @ sekki_name s @ [0x30FB] @ label
          @ [0x300C] @ ko_name k @ [0x300D] @ [0xFF08] @ ko_reading k @ [0xFF09]"]) simp
  moreover have "sublist (sekki_name s) msg"
    unfolding sublist_def msg_def
    by (intro exI [of _ "ascii ''*'' @ strftime date ''%Y/%m/%d'' @ ascii '' dev-daily* ''
          @ ko_emoji k @ [0x0A] @ ascii ''> ''"]
          exI [of _ "[0x30FB] @ label
          @ [0x300C] @ ko_name k @ [0x300D] @ [0xFF08] @ ko_reading k @ [0xFF09]"]) simp
  moreover have "sublist label msg"
    unfolding sublist_def msg_def
    by (intro exI [of _ "ascii ''*'' @ strftime date ''%Y/%m/%d'' @ ascii '' dev-daily* ''
          @ ko_emoji k @ [0x0A] @ ascii ''> '' @ sekki_name s @ [0x30FB]"]
          exI [of _ "[0x300C] @ ko_name k @ [0x300D] @ [0xFF08] @ ko_reading k @ [0xFF09]"]) simp
  moreover have "sublist (ko_name k) msg"
    unfolding sublist_def msg_def
    by (intro exI [of _ "ascii ''*'' @ strftime date ''%Y/%m/%d'' @ ascii '' dev-daily* ''
          @ ko_emoji k @ [0x0A] @ ascii ''> '' @ sekki_name s @ [0x30FB] @ label @ [0x300C]"]
          exI [of _ "[0x300D] @ [0xFF08] @ ko_reading k @ [0xFF09]"]) simp
  moreover have "sublist (ko_reading k) msg"
    unfolding sublist_def msg_def
    by (intro exI [of _ "ascii ''*'' @ strftime date ''%Y/%m/%d'' @ ascii '' dev-daily* ''
          @ ko_emoji k @ [0x0A] @ ascii ''> '' @ sekki_name s @ [0x30FB] @ label @ [0x300C]
          @ ko_name k @ [0x300D] @ [0xFF08]"]
          exI [of _ "[0xFF09]"]) simp
  ultimately show ?thesis
    unfolding label_def by blast
qed

theorem format_message_contains_witness:
  "(0::int) \<le> 1 \<and> (1::int) \<le> 2
   \<and> format_message example_strftime (2026, 11, 4) (mk_sekki 0 315) (mk_ko 0 1) 1 =
       Inr (ascii ''*2026/11/04 dev-daily* '' @ [0x1F301, 0x0A] @ ascii ''> s'' @ [0, 0x30FB]
            @ ko_names ! 1 @ [0x300C] @ ascii ''k'' @ [0, 1, 0x300D, 0xFF08] @ ascii ''r''
            @ [0, 1, 0xFF09])"
  using format_message_contains [of 1 example_strftime "(2026, 11, 4)" "mk_sekki 0 315" "mk_ko 0 1"]
  by (simp add: format_message_def example_strftime_def digits2_def py_index_def ko_names_def
      mk_sekki_def mk_ko_def ascii_def)

text \<open>
  C10. Whatever the message and the URL, when the HTTP call returns a response or raises an
  \<^verbatim>\<open>Exception\<close>, \<^verbatim>\<open>post_to_slack\<close> returns a boolean: it is true exactly when the call
  returned a response with status code 200, and an exception gives false with one line
  printed, the exception's message after the fixed prefix.
\<close>

theorem post_to_slack_returns_bool:
  assumes "\<forall>e. requests_post webhook_url
              \<lparr>payload_text = message, payload_username = BOT_NAME, payload_icon_url = ICON_URL\<rparr>
              10 \<noteq> Raises (NonException e)"
  shows "\<exists>ok out. post_to_slack requests_post message webhook_url = Inr (ok, out)
           \<and> (ok \<longleftrightarrow> requests_post webhook_url
                        \<lparr>payload_text = message, payload_username = BOT_NAME,
                           payload_icon_url = ICON_URL\<rparr> 10 = Response 200)
           \<and> (\<forall>e. requests_post webhook_url
                        \<lparr>payload_text = message, payload_username = BOT_NAME,
                           payload_icon_url = ICON_URL\<rparr> 10 = Raises (Exception e)
                    \<longrightarrow> \<not> ok \<and> out = [ascii ''Slack '' @ [0x6295, 0x7A3F, 0x30A8, 0x30E9, 0x30FC]
                                            @ ascii '': '' @ e])"
  using assms
  by (cases "requests_post webhook_url
              \<lparr>payload_text = message, payload_username = BOT_NAME, payload_icon_url = ICON_URL\<rparr>
              10")
     (auto simp add: post_to_slack_def split: raised.splits)

theorem post_to_slack_returns_bool_witness:
  "post_to_slack post_200 (ascii ''koyomi'') (ascii ''https://hooks.example/T0'') = Inr (True, [])
   \<and> post_to_slack post_204 (ascii ''koyomi'') (ascii ''https://hooks.example/T0'') = Inr (False, [])
   \<and> post_to_slack post_timeout (ascii ''koyomi'') (ascii ''https://hooks.example/T0'') =
       Inr (False, [ascii ''Slack '' @ [0x6295, 0x7A3F, 0x30A8, 0x30E9, 0x30FC]
                    @ ascii '': timed out''])"
  using post_to_slack_returns_bool [of post_200 "ascii ''https://hooks.example/T0''" "ascii ''koyomi''"]
    post_to_slack_returns_bool [of post_204 "ascii ''https://hooks.example/T0''" "ascii ''koyomi''"]
    post_to_slack_returns_bool [of post_timeout "ascii ''https://hooks.example/T0''" "ascii ''koyomi''"]
  by (simp add: post_to_slack_def post_200_def post_204_def post_timeout_def ascii_def)

end
